theory Spec2Isabelle
  imports Main "HOL-Library.AList"
begin

section \<open>Common data\<close>

text \<open>
  A value produced by \<^verbatim>\<open>JSON.parse\<close>. An object is the list of its entries in the
  order \<^verbatim>\<open>Object.entries\<close> enumerates them; its keys are pairwise distinct, as
  they are in every JavaScript object. A number carries \<^verbatim>\<open>String(value)\<close> when it
  is finite and \<open>None\<close> when it is not (\<^verbatim>\<open>JSON.parse('1e999')\<close> is \<^verbatim>\<open>Infinity\<close>).
\<close>

datatype json =
    JNull
  | JBool bool
  | JNum "string option"
  | JStr string
  | JArr "json list"
  | JObj "(string \<times> json) list"

text \<open>Property access \<^verbatim>\<open>obj.key\<close>; \<open>None\<close> is \<^verbatim>\<open>undefined\<close>.\<close>

fun jget :: "json \<Rightarrow> string \<Rightarrow> json option" where
  "jget (JObj kvs) k = map_of kvs k"
| "jget _ k = None"

fun isJStr :: "json option \<Rightarrow> bool" where
  "isJStr (Some (JStr s)) = True"
| "isJStr _ = False"

section \<open>The extension's client: \<^verbatim>\<open>BridgeClient\<close>\<close>

datatype conn_state = Disconnected | Connecting | Connected

datatype transport = SysWebSocket | GlobalWebSocket | NoTransport

datatype log_level = Debug | Info | Warn | Error

text \<open>
  The texts assigned to \<^verbatim>\<open>#lastError\<close>. Each constructor stands for one message
  template of the source and carries the values the template interpolates.
\<close>

datatype client_error =
    StaleTraffic int
      \<comment> \<open>\<^verbatim>\<open>No server traffic for ${Math.round(age / 1000)}s; reconnecting...\<close>, the age in ms\<close>
  | HandshakeNotConfirmed string
      \<comment> \<open>\<^verbatim>\<open>Handshake not confirmed (no server request received). ... (${serverUrl})\<close>\<close>
  | NoWebSocketApi
      \<comment> \<open>\<^verbatim>\<open>No WebSocket API available in this EDA environment\<close>\<close>
  | ConnectTimeoutError int string
      \<comment> \<open>\<^verbatim>\<open>Connect timeout after ${connectTimeoutMs}ms (url ${cfg.serverUrl}). ...\<close>\<close>
  | SendFailed string
      \<comment> \<open>\<^verbatim>\<open>WebSocket send failed: ${msg}\<close>\<close>
  | RegisterFailed string
      \<comment> \<open>\<^verbatim>\<open>SYS_WebSocket.register failed: ${msg}\<close>\<close>
  | WebSocketUnavailable
      \<comment> \<open>\<^verbatim>\<open>WebSocket is not available in this EDA environment\<close>\<close>
  | ConstructorFailed string string
      \<comment> \<open>\<^verbatim>\<open>WebSocket constructor failed (url ${cfg.serverUrl}): ${msg}\<close>\<close>
  | WebSocketError string
      \<comment> \<open>\<^verbatim>\<open>WebSocket error (url ${cfg.serverUrl})\<close>\<close>
  | DisconnectedError "int option" string
      \<comment> \<open>\<^verbatim>\<open>Disconnected (code ${code ?? 'unknown'}: ${reason})\<close>\<close>
  | SysCloseFailed string
      \<comment> \<open>\<^verbatim>\<open>SYS_WebSocket.close failed: ${msg}\<close>\<close>

text \<open>A \<^verbatim>\<open>DebugLogEntry\<close> without its free-form \<^verbatim>\<open>data\<close> field.\<close>

record log_entry =
  ts :: int
  level :: log_level
  message :: string

record runtime_state =
  rt_updatedAt :: int
  rt_connectionState :: conn_state
  rt_transport :: transport
  rt_lastConnectedAt :: "int option"
  rt_lastServerRequestAt :: "int option"
  rt_lastError :: "client_error option"
  rt_debugLog :: "log_entry list"

text \<open>
  The calls the client makes on the host's socket interfaces, and the calls of
  \<^verbatim>\<open>opts.onRequest\<close>. What follows the \<^verbatim>\<open>await\<close> of that call, the sending of the
  response, touches no field of the client and is left out.
\<close>

datatype wire_effect =
    SysRegister string
  | SysSendHello
  | SysClose nat string
  | WsCreate nat string
  | WsSendHello nat
  | WsClose nat nat string
  | Dispatch string string
      \<comment> \<open>\<^verbatim>\<open>opts.onRequest(msg.method, msg.params)\<close> is called for the request id and method\<close>

text \<open>
  Everything a handler reads from the host at the moment it runs: the stored
  configuration (\<^verbatim>\<open>loadBridgeConfig()\<close>), the stored runtime state
  (\<^verbatim>\<open>loadRuntimeState()\<close>, which other sandboxes of the extension write too), the
  socket interfaces that exist, and whether a call into the host throws.
\<close>

record host_env =
  cfg_serverUrl :: string
  cfg_autoConnect :: bool
  runtime :: "runtime_state option"
  hasSysWebSocket :: bool
  hasGlobalWebSocket :: bool
  registerThrows :: "string option"
  constructorThrows :: "string option"
  sysCloseThrows :: "string option"
  sysSendThrows :: "string option"
  newSocket :: nat

text \<open>
  The private fields of \<^verbatim>\<open>BridgeClient\<close>. A timer field holds what the pending
  callback has captured while the timer is armed, and \<open>None\<close> once it is cleared or
  has fired. \<open>attached\<close> are the browser sockets whose \<^verbatim>\<open>on...\<close> handlers are still
  set, \<open>sysRegistered\<close> the urls for which callbacks were handed to
  \<^verbatim>\<open>sys_WebSocket.register\<close>, \<open>saved\<close> the last value given to
  \<^verbatim>\<open>saveRuntimeState\<close>, \<open>wire\<close> the calls made on the socket interfaces.
  The \<^verbatim>\<open>onInfo\<close> notifications of the user interface are not modelled.
\<close>

record client =
  clientSocket :: "nat option"
  lastConnectedAt :: "int option"
  lastServerRequestAt :: "int option"
  lastError :: "client_error option"
  connectTimer :: "(transport \<times> string) option"
  handshakeTimer :: "string option"
  handshakeOk :: bool
  debugLog :: "log_entry list"
  connectionState :: conn_state
  transport :: transport
  registeredUrl :: "string option"
  lastPersistAt :: int
  autoEnabled :: bool
  autoTimer :: "int option"
  autoBackoffMs :: int
  autoMaxBackoffMs :: int
  autoOpts :: bool
  attached :: "nat set"
  sysRegistered :: "string list"
  saved :: "runtime_state option"
  wire :: "wire_effect list"

definition new_client :: client where
  "new_client =
     \<lparr>clientSocket = None, lastConnectedAt = None, lastServerRequestAt = None,
      lastError = None, connectTimer = None, handshakeTimer = None, handshakeOk = False,
      debugLog = [], connectionState = Disconnected, transport = NoTransport,
      registeredUrl = None, lastPersistAt = 0, autoEnabled = False, autoTimer = None,
      autoBackoffMs = 1500, autoMaxBackoffMs = 30000, autoOpts = False,
      attached = {}, sysRegistered = [], saved = None, wire = []\<rparr>"

definition isRpcRequest :: "json \<Rightarrow> bool" where
  "isRpcRequest msg =
     (jget msg ''type'' = Some (JStr ''request'')
      \<and> isJStr (jget msg ''id'') \<and> isJStr (jget msg ''method''))"

definition persistRuntime :: "int \<Rightarrow> bool \<Rightarrow> client \<Rightarrow> client" where
  "persistRuntime now force s =
     (if \<not> force \<and> now - lastPersistAt s < 250 then s
      else s\<lparr>lastPersistAt := now,
             saved := Some \<lparr>rt_updatedAt = now,
                            rt_connectionState = connectionState s,
                            rt_transport = transport s,
                            rt_lastConnectedAt = lastConnectedAt s,
                            rt_lastServerRequestAt = lastServerRequestAt s,
                            rt_lastError = lastError s,
                            rt_debugLog = debugLog s\<rparr>\<rparr>)"

definition pushLog :: "int \<Rightarrow> log_level \<Rightarrow> string \<Rightarrow> client \<Rightarrow> client" where
  "pushLog now lvl msg s =
     (let l = debugLog s @ [\<lparr>ts = now, level = lvl, message = msg\<rparr>];
          l' = (if length l > 200 then drop (length l - 200) l else l)
      in persistRuntime now False (s\<lparr>debugLog := l'\<rparr>))"

definition setState :: "int \<Rightarrow> conn_state \<Rightarrow> client \<Rightarrow> client" where
  "setState now st s = persistRuntime now True (s\<lparr>connectionState := st\<rparr>)"

definition clearHandshakeTimer :: "client \<Rightarrow> client" where
  "clearHandshakeTimer s = s\<lparr>handshakeTimer := None\<rparr>"

definition startHandshakeWatchdog :: "string \<Rightarrow> client \<Rightarrow> client" where
  "startHandshakeWatchdog serverUrl s = (clearHandshakeTimer s)\<lparr>handshakeTimer := Some serverUrl\<rparr>"

definition markServerTraffic :: "int \<Rightarrow> client \<Rightarrow> client" where
  "markServerTraffic now s = persistRuntime now False (s\<lparr>lastServerRequestAt := Some now\<rparr>)"

text \<open>
  \<^verbatim>\<open>disconnect(opts)\<close>; the flag is \<^verbatim>\<open>opts?.preserveLastError\<close>. A browser socket
  loses its four handlers before it is closed, and what its \<^verbatim>\<open>close\<close> throws is
  ignored.
\<close>

definition disconnect :: "host_env \<Rightarrow> int \<Rightarrow> bool \<Rightarrow> client \<Rightarrow> client" where
  "disconnect env now preserveLastError s =
     (let ws = clientSocket s;
          s1 = clearHandshakeTimer (s\<lparr>connectTimer := None\<rparr>);
          s2 = s1\<lparr>handshakeOk := False\<rparr>;
          s3 = pushLog now Info ''disconnect() called'' s2
      in if transport s3 = SysWebSocket then
           (let s4 = (case sysCloseThrows env of
                        None \<Rightarrow> s3\<lparr>wire := wire s3 @ [SysClose 1000 ''User disconnect'']\<rparr>
                      | Some msg \<Rightarrow>
                          pushLog now Error ''SYS_WebSocket.close failed''
                            (s3\<lparr>lastError := Some (SysCloseFailed msg)\<rparr>));
                s5 = setState now Disconnected s4;
                s6 = (if \<not> preserveLastError then s5\<lparr>lastError := None\<rparr> else s5)
            in s6\<lparr>lastServerRequestAt := None\<rparr>)
         else
           (let s4 = (case ws of
                        None \<Rightarrow> s3
                      | Some w \<Rightarrow>
                          s3\<lparr>attached := attached s3 - {w},
                             wire := wire s3 @ [WsClose w 1000 ''User disconnect'']\<rparr>);
                s5 = s4\<lparr>clientSocket := None\<rparr>;
                s6 = (if \<not> preserveLastError then s5\<lparr>lastError := None\<rparr> else s5);
                s7 = s6\<lparr>lastServerRequestAt := None\<rparr>
            in setState now Disconnected s7))"

text \<open>
  The callback armed by \<^verbatim>\<open>#startHandshakeWatchdog\<close>, run when the timer fires. A
  timer that is not armed does not fire.
\<close>

definition handshakeWatchdogFired :: "host_env \<Rightarrow> int \<Rightarrow> client \<Rightarrow> client" where
  "handshakeWatchdogFired env now s =
     (case handshakeTimer s of
        None \<Rightarrow> s
      | Some serverUrl \<Rightarrow>
          (let s0 = s\<lparr>handshakeTimer := None\<rparr>
           in if handshakeOk s0 then s0
              else disconnect env now True
                     (pushLog now Error ''handshake timeout''
                        (s0\<lparr>lastError := Some (HandshakeNotConfirmed serverUrl)\<rparr>))))"

text \<open>
  The test in \<^verbatim>\<open>connect\<close> that another sandbox of the extension owns the
  connection already.
\<close>

definition shouldAssumeAnotherSandboxOwnsConnection :: "host_env \<Rightarrow> int \<Rightarrow> bool" where
  "shouldAssumeAnotherSandboxOwnsConnection env now =
     (case runtime env of
        None \<Rightarrow> False
      | Some r \<Rightarrow>
          rt_connectionState r \<noteq> Disconnected \<and>
          ((rt_connectionState r = Connecting \<and> now - rt_updatedAt r < 20000) \<or>
           (rt_connectionState r = Connected \<and>
              (case rt_lastServerRequestAt r of
                 None \<Rightarrow> False
               | Some t \<Rightarrow> t \<noteq> 0 \<and> now - t < 30000))))"

text \<open>The branch of \<^verbatim>\<open>connect\<close> that registers with the host's \<^verbatim>\<open>sys_WebSocket\<close>.\<close>

definition connect_sys :: "host_env \<Rightarrow> int \<Rightarrow> client \<Rightarrow> client" where
  "connect_sys env now s =
     (let url = cfg_serverUrl env;
          s1 = (case registeredUrl s of
                  None \<Rightarrow> s
                | Some old \<Rightarrow>
                    if old \<noteq> [] \<and> old \<noteq> url \<and> sysCloseThrows env = None
                    then s\<lparr>wire := wire s @ [SysClose 1000 ''Reconfigure'']\<rparr> else s);
          s2 = setState now Connecting (s1\<lparr>registeredUrl := Some url\<rparr>);
          s3 = pushLog now Info ''sys_WebSocket.register'' s2;
          s4 = s3\<lparr>connectTimer := Some (SysWebSocket, url)\<rparr>
      in case registerThrows env of
           None \<Rightarrow> s4\<lparr>sysRegistered := sysRegistered s4 @ [url],
                       wire := wire s4 @ [SysRegister url]\<rparr>
         | Some msg \<Rightarrow>
             pushLog now Error ''SYS_WebSocket.register failed''
               ((setState now Disconnected (s4\<lparr>connectTimer := None\<rparr>))
                  \<lparr>lastError := Some (RegisterFailed msg)\<rparr>))"

text \<open>The branch of \<^verbatim>\<open>connect\<close> that falls back to the global \<^verbatim>\<open>WebSocket\<close>.\<close>

definition connect_ws :: "host_env \<Rightarrow> int \<Rightarrow> client \<Rightarrow> client" where
  "connect_ws env now s =
     (let url = cfg_serverUrl env in
      if \<not> hasGlobalWebSocket env then
        pushLog now Error ''WebSocket is not available in this EDA environment''
          (s\<lparr>lastError := Some WebSocketUnavailable\<rparr>)
      else
        (let s1 = setState now Connecting s in
         case constructorThrows env of
           Some msg \<Rightarrow>
             pushLog now Error ''WebSocket constructor failed''
               ((setState now Disconnected s1)\<lparr>lastError := Some (ConstructorFailed url msg)\<rparr>)
         | None \<Rightarrow>
             (let w = newSocket env;
                  s2 = s1\<lparr>clientSocket := Some w, wire := wire s1 @ [WsCreate w url]\<rparr>;
                  s3 = pushLog now Debug ''WebSocket created'' s2
              in s3\<lparr>connectTimer := Some (GlobalWebSocket, url), attached := insert w (attached s3)\<rparr>)))"

definition connect :: "host_env \<Rightarrow> int \<Rightarrow> client \<Rightarrow> client" where
  "connect env now s =
     (let s1 = clearHandshakeTimer (s\<lparr>handshakeOk := False\<rparr>);
          s2 = s1\<lparr>lastServerRequestAt := None\<rparr>
      in if shouldAssumeAnotherSandboxOwnsConnection env now then s2
         else
           (let s3 = pushLog now Info ''connect() called'' s2;
                s4 = persistRuntime now True
                       (s3\<lparr>transport :=
                             (if hasSysWebSocket env then SysWebSocket
                              else if hasGlobalWebSocket env then GlobalWebSocket
                              else NoTransport)\<rparr>);
                s5 = s4\<lparr>lastError := None\<rparr>
            in if transport s5 = NoTransport then
                 pushLog now Error ''No WebSocket API available in this EDA environment''
                   (s5\<lparr>lastError := Some NoWebSocketApi\<rparr>)
               else if connectionState s5 = Connected \<or> connectionState s5 = Connecting then
                 pushLog now Warn ''connect() ignored: already connected/connecting'' s5
               else if transport s5 = SysWebSocket then connect_sys env now s5
               else connect_ws env now s5))"

text \<open>
  The handshake step both \<^verbatim>\<open>onMessage\<close> handlers share: the text of the frame has
  been parsed (\<open>None\<close> when \<^verbatim>\<open>JSON.parse\<close> throws), and only a request counts as
  traffic of the server.
\<close>

definition confirmHandshake :: "int \<Rightarrow> client \<Rightarrow> client" where
  "confirmHandshake now s =
     (let s1 = markServerTraffic now s in
      if \<not> handshakeOk s1 then
        setState now Connected
          (pushLog now Info ''handshake confirmed (first server request)''
             (clearHandshakeTimer (s1\<lparr>handshakeOk := True\<rparr>)))
      else s1)"

text \<open>The string in a member that \<^const>\<open>isRpcRequest\<close> has found to be one.\<close>

fun jstr :: "json option \<Rightarrow> string" where
  "jstr (Some (JStr s)) = s"
| "jstr _ = []"

text \<open>\<^verbatim>\<open>onMessage\<close> of the \<^verbatim>\<open>sys_WebSocket\<close> registration, up to its \<^verbatim>\<open>await\<close>.\<close>

definition sys_onMessage :: "int \<Rightarrow> json option \<Rightarrow> client \<Rightarrow> client" where
  "sys_onMessage now parsed s =
     (case parsed of
        None \<Rightarrow> pushLog now Warn ''sys_WebSocket message: JSON parse failed'' s
      | Some msg \<Rightarrow>
          if \<not> isRpcRequest msg then s
          else (let s1 = confirmHandshake now s
                in s1\<lparr>wire := wire s1 @ [Dispatch (jstr (jget msg ''id'')) (jstr (jget msg ''method''))]\<rparr>))"

text \<open>\<^verbatim>\<open>onConnected\<close> of the \<^verbatim>\<open>sys_WebSocket\<close> registration, for the url it captured.\<close>

definition sys_onConnected :: "host_env \<Rightarrow> int \<Rightarrow> string \<Rightarrow> client \<Rightarrow> client" where
  "sys_onConnected env now url s =
     (let s1 = s\<lparr>connectTimer := None, lastConnectedAt := Some now\<rparr>;
          s2 = pushLog now Info ''sys_WebSocket connected'' s1;
          s3 = (case sysSendThrows env of
                  None \<Rightarrow> pushLog now Debug ''hello sent'' (s2\<lparr>wire := wire s2 @ [SysSendHello]\<rparr>)
                | Some msg \<Rightarrow>
                    pushLog now Error ''hello send failed'' (s2\<lparr>lastError := Some (SendFailed msg)\<rparr>))
      in persistRuntime now True (startHandshakeWatchdog url s3))"

text \<open>
  The connect timer, run when it fires: the callback of the \<^verbatim>\<open>sys_WebSocket\<close>
  branch or the one of the browser branch, whichever armed it. \<open>connecting\<close> is
  \<^verbatim>\<open>ws.readyState === WebSocket.CONNECTING\<close> of the browser socket.
\<close>

definition connectTimerFired :: "host_env \<Rightarrow> int \<Rightarrow> bool \<Rightarrow> client \<Rightarrow> client" where
  "connectTimerFired env now connecting s =
     (case connectTimer s of
        None \<Rightarrow> s
      | Some (SysWebSocket, url) \<Rightarrow>
          (let s0 = s\<lparr>connectTimer := None\<rparr> in
           if connectionState s0 \<noteq> Connecting then s0
           else
             (let s1 = pushLog now Error ''connect timeout''
                         (s0\<lparr>lastError := Some (ConnectTimeoutError 8000 url)\<rparr>);
                  s2 = setState now Disconnected s1
              in if sysCloseThrows env = None
                 then s2\<lparr>wire := wire s2 @ [SysClose 4004 ''Connect timeout'']\<rparr> else s2))
      | Some (_, url) \<Rightarrow>
          (let s0 = s\<lparr>connectTimer := None\<rparr> in
           case clientSocket s0 of
             None \<Rightarrow> s0
           | Some w \<Rightarrow>
               if \<not> connecting then s0
               else
                 (let s1 = pushLog now Error ''connect timeout''
                             (s0\<lparr>lastError := Some (ConnectTimeoutError 8000 url)\<rparr>);
                      s2 = s1\<lparr>wire := wire s1 @ [WsClose w 4004 ''Connect timeout''],
                              clientSocket := None\<rparr>
                  in setState now Disconnected s2)))"

text \<open>
  The handlers set on a browser socket \<open>w\<close>. An event of a socket whose handlers were
  removed reaches nobody.
\<close>

definition ws_onopen :: "int \<Rightarrow> nat \<Rightarrow> string \<Rightarrow> client \<Rightarrow> client" where
  "ws_onopen now w url s =
     (if w \<notin> attached s then s
      else
        (let s1 = s\<lparr>connectTimer := None, lastConnectedAt := Some now\<rparr>;
             s2 = pushLog now Info ''WebSocket onopen'' s1;
             s3 = pushLog now Debug ''hello sent'' (s2\<lparr>wire := wire s2 @ [WsSendHello w]\<rparr>)
         in persistRuntime now True (startHandshakeWatchdog url s3)))"

definition ws_onmessage :: "int \<Rightarrow> nat \<Rightarrow> json option \<Rightarrow> client \<Rightarrow> client" where
  "ws_onmessage now w parsed s =
     (if w \<notin> attached s then s
      else case parsed of
        None \<Rightarrow> pushLog now Warn ''onmessage: JSON parse failed'' s
      | Some msg \<Rightarrow>
          if \<not> isRpcRequest msg then s
          else (let s1 = confirmHandshake now s
                in case clientSocket s1 of
                     None \<Rightarrow> s1
                   | Some ws \<Rightarrow>
                       s1\<lparr>wire := wire s1 @ [Dispatch (jstr (jget msg ''id'')) (jstr (jget msg ''method''))]\<rparr>))"

definition ws_onerror :: "int \<Rightarrow> nat \<Rightarrow> string \<Rightarrow> client \<Rightarrow> client" where
  "ws_onerror now w url s =
     (if w \<notin> attached s then s
      else
        (let s1 = clearHandshakeTimer (s\<lparr>connectTimer := None\<rparr>);
             s2 = s1\<lparr>handshakeOk := False, lastError := Some (WebSocketError url)\<rparr>
         in pushLog now Error ''WebSocket onerror'' s2))"

definition ws_onclose :: "int \<Rightarrow> nat \<Rightarrow> string \<Rightarrow> int option \<Rightarrow> string \<Rightarrow> client \<Rightarrow> client" where
  "ws_onclose now w url code reason s =
     (if w \<notin> attached s then s
      else
        (let s1 = clearHandshakeTimer (s\<lparr>connectTimer := None\<rparr>);
             s2 = s1\<lparr>handshakeOk := False, lastError := Some (DisconnectedError code reason)\<rparr>;
             s3 = pushLog now Warn ''WebSocket onclose'' s2;
             s4 = s3\<lparr>clientSocket := None, attached := attached s3 - {w}\<rparr>
         in setState now Disconnected s4))"

subsection \<open>The auto-reconnect supervisor\<close>

definition scheduleAuto :: "int \<Rightarrow> client \<Rightarrow> client" where
  "scheduleAuto ms s = (if \<not> autoEnabled s then s else s\<lparr>autoTimer := Some ms\<rparr>)"

definition startAutoConnect :: "client \<Rightarrow> client" where
  "startAutoConnect s =
     scheduleAuto 0 (s\<lparr>autoEnabled := True, autoOpts := True, autoBackoffMs := 1500\<rparr>)"

definition stopAutoConnect :: "client \<Rightarrow> client" where
  "stopAutoConnect s = s\<lparr>autoEnabled := False, autoOpts := False, autoTimer := None\<rparr>"

text \<open>
  \<^verbatim>\<open>Math.min(Math.floor(this.#autoBackoffMs * 1.6), this.#autoMaxBackoffMs)\<close>. The
  delay is a whole number of milliseconds below \<open>2^16\<close>; there the double product
  with \<open>1.6\<close> lies less than \<open>10^-11\<close> above the exact \<open>8 * b / 5\<close>, and never
  below a whole number that the exact product reaches, so that its floor is the
  integer quotient.
\<close>

definition nextBackoff :: "int \<Rightarrow> int \<Rightarrow> int" where
  "nextBackoff backoff cap = min ((backoff * 16) div 10) cap"

text \<open>The staleness check at the head of \<^verbatim>\<open>#autoTick\<close>.\<close>

definition staleCheck :: "host_env \<Rightarrow> int \<Rightarrow> client \<Rightarrow> client" where
  "staleCheck env now s =
     (case lastServerRequestAt s of
        None \<Rightarrow> s
      | Some t \<Rightarrow>
          if connectionState s = Connected \<and> t \<noteq> 0 \<and> now - t > 60000 then
            disconnect env now False
              (pushLog now Warn ''stale connection; reconnecting''
                 (s\<lparr>lastError := Some (StaleTraffic (now - t))\<rparr>))
          else s)"

definition autoTick :: "host_env \<Rightarrow> int \<Rightarrow> client \<Rightarrow> client" where
  "autoTick env now s =
     (if \<not> autoEnabled s then s
      else if \<not> cfg_autoConnect env then stopAutoConnect s
      else
        (let s1 = staleCheck env now s in
         if connectionState s1 = Connected then scheduleAuto 10000 s1
         else if connectionState s1 = Connecting then scheduleAuto 2000 s1
         else if \<not> autoOpts s1 then scheduleAuto 10000 s1
         else
           (let s2 = connect env now s1;
                s3 = scheduleAuto (autoBackoffMs s2) s2
            in s3\<lparr>autoBackoffMs := nextBackoff (autoBackoffMs s3) (autoMaxBackoffMs s3)\<rparr>)))"

text \<open>The timer armed by \<^verbatim>\<open>#scheduleAuto\<close>, run when it fires.\<close>

definition autoTimerFired :: "host_env \<Rightarrow> int \<Rightarrow> client \<Rightarrow> client" where
  "autoTimerFired env now s =
     (case autoTimer s of None \<Rightarrow> s | Some ms \<Rightarrow> autoTick env now (s\<lparr>autoTimer := None\<rparr>))"

definition dispose :: "host_env \<Rightarrow> int \<Rightarrow> client \<Rightarrow> client" where
  "dispose env now s = disconnect env now False (stopAutoConnect s)"

text \<open>
  The delays armed by consecutive runs of \<^verbatim>\<open>#autoTick\<close>, one run at each of the
  given times, each run being the firing of the timer the run before it armed.
\<close>

fun tickDelays :: "host_env \<Rightarrow> int list \<Rightarrow> client \<Rightarrow> int option list" where
  "tickDelays env [] s = []"
| "tickDelays env (now # later) s =
     (let s' = autoTick env now s in autoTimer s' # tickDelays env later s')"

text \<open>A host that offers no socket interface at all: every \<^verbatim>\<open>connect\<close> fails.\<close>

definition unreachable_env :: host_env where
  "unreachable_env =
     \<lparr>cfg_serverUrl = ''ws://127.0.0.1:9050'', cfg_autoConnect = True, runtime = None,
      hasSysWebSocket = False, hasGlobalWebSocket = False, registerThrows = None,
      constructorThrows = None, sysCloseThrows = None, sysSendThrows = None, newSocket = 0\<rparr>"

text \<open>The delays that repeated use of \<^const>\<open>nextBackoff\<close> gives, the first being \<open>b\<close>.\<close>

fun backoffSeq :: "nat \<Rightarrow> int \<Rightarrow> int \<Rightarrow> int list" where
  "backoffSeq 0 b cap = []"
| "backoffSeq (Suc n) b cap = b # backoffSeq n (nextBackoff b cap) cap"

definition auto_armed :: "client \<Rightarrow> bool" where
  "auto_armed s \<longleftrightarrow> autoEnabled s \<and> autoOpts s \<and> connectionState s = Disconnected"

subsection \<open>The client as a transition system\<close>

text \<open>
  Everything that can happen to a client: a call of its public surface, a timer
  firing, or the host delivering an event of a socket. The callbacks given to
  \<^verbatim>\<open>sys_WebSocket.register\<close> exist from the first registration on.
\<close>

datatype client_event =
    CallConnect
  | CallDisconnect bool
  | CallStartAutoConnect
  | CallStopAutoConnect
  | CallDispose
  | ConnectTimerFires bool
  | HandshakeTimerFires
  | AutoTimerFires
  | SysConnected string
  | SysMessage "json option"
  | WsOpen nat string
  | WsMessage nat "json option"
  | WsError nat string
  | WsClose_event nat string "int option" string

fun client_step :: "host_env \<Rightarrow> int \<Rightarrow> client_event \<Rightarrow> client \<Rightarrow> client" where
  "client_step env now CallConnect s = connect env now s"
| "client_step env now (CallDisconnect preserve) s = disconnect env now preserve s"
| "client_step env now CallStartAutoConnect s = startAutoConnect s"
| "client_step env now CallStopAutoConnect s = stopAutoConnect s"
| "client_step env now CallDispose s = dispose env now s"
| "client_step env now (ConnectTimerFires connecting) s = connectTimerFired env now connecting s"
| "client_step env now HandshakeTimerFires s = handshakeWatchdogFired env now s"
| "client_step env now AutoTimerFires s = autoTimerFired env now s"
| "client_step env now (SysConnected url) s =
     (if url \<in> set (sysRegistered s) then sys_onConnected env now url s else s)"
| "client_step env now (SysMessage parsed) s =
     (if sysRegistered s \<noteq> [] then sys_onMessage now parsed s else s)"
| "client_step env now (WsOpen w url) s = ws_onopen now w url s"
| "client_step env now (WsMessage w parsed) s = ws_onmessage now w parsed s"
| "client_step env now (WsError w url) s = ws_onerror now w url s"
| "client_step env now (WsClose_event w url code reason) s = ws_onclose now w url code reason s"

text \<open>A run: each event comes with the host as it is and the clock as it stands then.\<close>

fun client_run :: "(host_env \<times> int \<times> client_event) list \<Rightarrow> client \<Rightarrow> client" where
  "client_run [] s = s"
| "client_run ((env, now, e) # rest) s = client_run rest (client_step env now e s)"

text \<open>\<^verbatim>\<open>getStatusSnapshot()\<close>, without the constant \<^verbatim>\<open>extension\<close> field.\<close>

record status_snapshot =
  snap_connected :: bool
  snap_connectionState :: conn_state
  snap_transport :: transport
  snap_serverUrl :: string
  snap_lastConnectedAt :: "int option"
  snap_lastServerRequestAt :: "int option"
  snap_lastError :: "client_error option"
  snap_fromStorage :: bool
  snap_runtimeUpdatedAt :: "int option"

definition getStatusSnapshot :: "host_env \<Rightarrow> client \<Rightarrow> status_snapshot" where
  "getStatusSnapshot env s =
     (let inferredTransport =
            (if hasSysWebSocket env then SysWebSocket
             else if hasGlobalWebSocket env then GlobalWebSocket else NoTransport);
          isFreshInstance =
            (debugLog s = [] \<and> connectionState s = Disconnected
             \<and> lastConnectedAt s = None \<and> lastError s = None)
      in case (if isFreshInstance then runtime env else None) of
           Some r \<Rightarrow>
             \<lparr>snap_connected = (rt_connectionState r = Connected),
              snap_connectionState = rt_connectionState r,
              snap_transport =
                (if rt_transport r \<noteq> NoTransport then rt_transport r else inferredTransport),
              snap_serverUrl = cfg_serverUrl env,
              snap_lastConnectedAt = rt_lastConnectedAt r,
              snap_lastServerRequestAt = rt_lastServerRequestAt r,
              snap_lastError = rt_lastError r,
              snap_fromStorage = True,
              snap_runtimeUpdatedAt = Some (rt_updatedAt r)\<rparr>
         | None \<Rightarrow>
             \<lparr>snap_connected = (connectionState s = Connected),
              snap_connectionState = connectionState s,
              snap_transport = (if transport s = NoTransport then inferredTransport else transport s),
              snap_serverUrl = cfg_serverUrl env,
              snap_lastConnectedAt = lastConnectedAt s,
              snap_lastServerRequestAt = lastServerRequestAt s,
              snap_lastError = lastError s,
              snap_fromStorage = False,
              snap_runtimeUpdatedAt = None\<rparr>)"




text \<open>
  A host offering \<^verbatim>\<open>sys_WebSocket\<close>, and a supervised client that connected through
  it at time 0, received its first request at time 1000 and has heard nothing since,
  while the supervisor ran every ten seconds.
\<close>

definition sys_env :: host_env where
  "sys_env =
     \<lparr>cfg_serverUrl = ''ws://127.0.0.1:9050'', cfg_autoConnect = True, runtime = None,
      hasSysWebSocket = True, hasGlobalWebSocket = False, registerThrows = None,
      constructorThrows = None, sysCloseThrows = None, sysSendThrows = None, newSocket = 0\<rparr>"

definition ping_request :: json where
  "ping_request =
     JObj [(''type'', JStr ''request''), (''id'', JStr ''a1''), (''method'', JStr ''ping'')]"

definition quiet_client :: client where
  "quiet_client =
     client_run
       [(sys_env, 0, CallStartAutoConnect),
        (sys_env, 0, AutoTimerFires),
        (sys_env, 40, SysConnected ''ws://127.0.0.1:9050''),
        (sys_env, 1000, SysMessage (Some ping_request)),
        (sys_env, 1500, AutoTimerFires),
        (sys_env, 11500, AutoTimerFires),
        (sys_env, 21500, AutoTimerFires),
        (sys_env, 31500, AutoTimerFires),
        (sys_env, 41500, AutoTimerFires),
        (sys_env, 51500, AutoTimerFires)]
       new_client"


section \<open>The server's transport: \<^verbatim>\<open>WsBridge\<close>\<close>

subsection \<open>Messages\<close>

record app_info =
  app_name :: "string option"
  app_version :: "string option"
  app_edaVersion :: "string option"

record hello_message =
  hello_token :: "string option"
  hello_app :: "app_info option"

record rpc_error =
  err_code :: string
  err_message :: string
  err_data :: "json option"

record response_message =
  resp_id :: string
  resp_result :: "json option"
  resp_error :: "rpc_error option"

text \<open>
  \<^verbatim>\<open>z.string().optional()\<close> on a property: \<open>None\<close> when validation fails, else the
  value, which is \<open>None\<close> for a property that is absent.
\<close>

fun optionalString :: "json option \<Rightarrow> string option option" where
  "optionalString None = Some None"
| "optionalString (Some (JStr s)) = Some (Some s)"
| "optionalString (Some _) = None"

fun requiredString :: "json option \<Rightarrow> string option" where
  "requiredString (Some (JStr s)) = Some s"
| "requiredString _ = None"

text \<open>The \<^verbatim>\<open>app\<close> member of \<^verbatim>\<open>HelloMessageSchema\<close>.\<close>

fun parseApp :: "json option \<Rightarrow> app_info option option" where
  "parseApp None = Some None"
| "parseApp (Some (JObj kvs)) =
     (case (optionalString (map_of kvs ''name''), optionalString (map_of kvs ''version''),
            optionalString (map_of kvs ''edaVersion'')) of
        (Some n, Some v, Some e) \<Rightarrow>
          Some (Some \<lparr>app_name = n, app_version = v, app_edaVersion = e\<rparr>)
      | _ \<Rightarrow> None)"
| "parseApp (Some _) = None"

text \<open>\<^verbatim>\<open>HelloMessageSchema.safeParse(json)\<close>; \<open>None\<close> is \<^verbatim>\<open>success: false\<close>.\<close>

fun parseHello :: "json \<Rightarrow> hello_message option" where
  "parseHello (JObj kvs) =
     (if map_of kvs ''type'' \<noteq> Some (JStr ''hello'') then None
      else case (optionalString (map_of kvs ''token''), parseApp (map_of kvs ''app'')) of
             (Some t, Some a) \<Rightarrow> Some \<lparr>hello_token = t, hello_app = a\<rparr>
           | _ \<Rightarrow> None)"
| "parseHello _ = None"

text \<open>The \<^verbatim>\<open>error\<close> member of \<^verbatim>\<open>ResponseMessageSchema\<close>.\<close>

fun parseError :: "json option \<Rightarrow> rpc_error option option" where
  "parseError None = Some None"
| "parseError (Some (JObj kvs)) =
     (case (requiredString (map_of kvs ''code''), requiredString (map_of kvs ''message'')) of
        (Some c, Some m) \<Rightarrow>
          Some (Some \<lparr>err_code = c, err_message = m, err_data = map_of kvs ''data''\<rparr>)
      | _ \<Rightarrow> None)"
| "parseError (Some _) = None"

text \<open>\<^verbatim>\<open>ResponseMessageSchema.safeParse(json)\<close>.\<close>

fun parseResponse :: "json \<Rightarrow> response_message option" where
  "parseResponse (JObj kvs) =
     (if map_of kvs ''type'' \<noteq> Some (JStr ''response'') then None
      else case (requiredString (map_of kvs ''id''), parseError (map_of kvs ''error'')) of
             (Some i, Some e) \<Rightarrow>
               Some \<lparr>resp_id = i, resp_result = map_of kvs ''result'', resp_error = e\<rparr>
           | _ \<Rightarrow> None)"
| "parseResponse _ = None"

subsection \<open>State\<close>

datatype ready_state = OPEN | CLOSING | CLOSED

datatype call_error =
    NotConnected
      \<comment> \<open>\<^verbatim>\<open>EDA bridge is not connected\<close>\<close>
  | CallTimeout string
      \<comment> \<open>\<^verbatim>\<open>Bridge call timeout: ${method}\<close>\<close>
  | SendFailure string
      \<comment> \<open>the error \<^verbatim>\<open>ws.send\<close> hands to its callback\<close>
  | BridgeClosed
      \<comment> \<open>\<^verbatim>\<open>Bridge closed\<close>\<close>
  | BridgeDisconnected
      \<comment> \<open>\<^verbatim>\<open>Bridge disconnected\<close>\<close>
  | RemoteError string string "json option"
      \<comment> \<open>the peer's message, with its code and data attached\<close>

datatype outcome = Resolved "json option" | Rejected call_error

text \<open>What one run of \<^verbatim>\<open>call\<close> past its connection check has fixed.\<close>

record call_info =
  call_id :: string
  call_method :: string
  call_timeoutMs :: nat
  call_socket :: nat

text \<open>
  The private fields of \<^verbatim>\<open>WsBridge\<close>, and around them what the code leaves to the
  runtime. The promise that a run of \<^verbatim>\<open>call\<close> returns is named by a number;
  \<open>calls\<close> holds what that run fixed and \<open>settled\<close> the promise's outcome. The
  \<^verbatim>\<open>PendingCall\<close> stored under an id is the number of its promise: \<^verbatim>\<open>resolve\<close> and
  \<^verbatim>\<open>reject\<close> settle that promise and \<^verbatim>\<open>timeout\<close> is its timer. \<open>pending\<close> keeps the
  order of insertion, as a \<^verbatim>\<open>Map\<close> does. \<open>callTimers\<close> are the promises whose timeout
  is armed, \<open>sendCallbacks\<close> those whose \<^verbatim>\<open>ws.send\<close> has not reported yet,
  \<open>keepAlivePings\<close> those issued by the keepalive interval. For each socket,
  \<open>handshaked\<close> is the flag of its \<^verbatim>\<open>#handleConnection\<close> closure, \<open>handshakeTimers\<close>
  the duration of its armed handshake timer, \<open>peerAddress\<close> the address the closure
  captured, \<open>readyState\<close> the state of the socket (\<open>None\<close> before it exists) and
  \<open>closeCalls\<close> the calls of \<^verbatim>\<open>ws.close(code, reason)\<close> made so far.
\<close>

record bridge =
  socket :: "nat option"
  clientHello :: "hello_message option"
  connectedAt :: "int option"
  remoteAddress :: "string option"
  pending :: "(string \<times> nat) list"
  keepAliveTimer :: bool
  keepAliveInFlight :: bool
  serverClosed :: bool
  nextPromise :: nat
  calls :: "nat \<rightharpoonup> call_info"
  settled :: "nat \<rightharpoonup> outcome"
  callTimers :: "nat set"
  sendCallbacks :: "nat set"
  keepAlivePings :: "nat set"
  handshaked :: "nat set"
  handshakeTimers :: "nat \<rightharpoonup> nat"
  peerAddress :: "nat \<rightharpoonup> string"
  readyState :: "nat \<rightharpoonup> ready_state"
  closeCalls :: "(nat \<times> nat \<times> string) list"
  sent :: "(nat \<times> string \<times> string) list"

definition new_bridge :: bridge where
  "new_bridge =
     \<lparr>socket = None, clientHello = None, connectedAt = None, remoteAddress = None,
      pending = [], keepAliveTimer = False, keepAliveInFlight = False, serverClosed = False,
      nextPromise = 0, calls = Map.empty, settled = Map.empty, callTimers = {},
      sendCallbacks = {}, keepAlivePings = {}, handshaked = {}, handshakeTimers = Map.empty,
      peerAddress = Map.empty, readyState = Map.empty, closeCalls = [], sent = []\<rparr>"

subsection \<open>The runtime around the code\<close>

text \<open>
  A promise settles once: \<^verbatim>\<open>resolve\<close> and \<^verbatim>\<open>reject\<close> on a settled promise do
  nothing. When a ping of the keepalive interval settles, its \<^verbatim>\<open>finally\<close> clears
  \<^verbatim>\<open>#keepAliveInFlight\<close>.
\<close>

definition settle :: "nat \<Rightarrow> outcome \<Rightarrow> bridge \<Rightarrow> bridge" where
  "settle p out s =
     (if settled s p \<noteq> None then s
      else s\<lparr>settled := (settled s)(p \<mapsto> out),
             keepAliveInFlight := (if p \<in> keepAlivePings s then False else keepAliveInFlight s)\<rparr>)"

text \<open>\<^verbatim>\<open>clearTimeout(pending.timeout)\<close> for the promise \<open>p\<close>.\<close>

definition clearCallTimer :: "nat \<Rightarrow> bridge \<Rightarrow> bridge" where
  "clearCallTimer p s = s\<lparr>callTimers := callTimers s - {p}\<rparr>"

text \<open>
  \<^verbatim>\<open>ws.close(code, reason)\<close>: an open socket starts closing; the call is recorded in
  any case.
\<close>

definition ws_close :: "nat \<Rightarrow> nat \<Rightarrow> string \<Rightarrow> bridge \<Rightarrow> bridge" where
  "ws_close ws code reason s =
     s\<lparr>closeCalls := closeCalls s @ [(ws, code, reason)],
       readyState := (if readyState s ws = Some OPEN then (readyState s)(ws \<mapsto> CLOSING)
                      else readyState s)\<rparr>"

subsection \<open>Calls\<close>

text \<open>
  \<^verbatim>\<open>call(method, params, timeoutMs)\<close>, given the value \<open>uuid\<close> that
  \<^verbatim>\<open>crypto.randomUUID()\<close> returns in it. \<open>Inl\<close> is the error thrown before any
  promise is pending.
\<close>

definition call :: "string \<Rightarrow> string \<Rightarrow> nat \<Rightarrow> bridge \<Rightarrow> call_error + bridge" where
  "call uuid method timeoutMs s =
     (case socket s of
        None \<Rightarrow> Inl NotConnected
      | Some ws \<Rightarrow>
          if readyState s ws \<noteq> Some OPEN then Inl NotConnected
          else
            (let p = nextPromise s in
             Inr (s\<lparr>nextPromise := Suc p,
                    calls := (calls s)(p \<mapsto> \<lparr>call_id = uuid, call_method = method,
                                               call_timeoutMs = timeoutMs, call_socket = ws\<rparr>),
                    callTimers := insert p (callTimers s),
                    pending := AList.update uuid p (pending s),
                    sent := sent s @ [(ws, uuid, method)],
                    sendCallbacks := insert p (sendCallbacks s)\<rparr>)))"

text \<open>The timeout callback of the promise \<open>p\<close>; a timer that is not armed does not fire.\<close>

definition callTimerFired :: "nat \<Rightarrow> bridge \<Rightarrow> bridge" where
  "callTimerFired p s =
     (if p \<notin> callTimers s then s
      else case calls s p of
             None \<Rightarrow> s
           | Some c \<Rightarrow>
               settle p (Rejected (CallTimeout (call_method c)))
                 (s\<lparr>callTimers := callTimers s - {p},
                    pending := AList.delete (call_id c) (pending s)\<rparr>))"

text \<open>The callback given to \<^verbatim>\<open>ws.send\<close> for the promise \<open>p\<close>, run with its \<^verbatim>\<open>err\<close>.\<close>

definition sendCallback :: "nat \<Rightarrow> string option \<Rightarrow> bridge \<Rightarrow> bridge" where
  "sendCallback p err s =
     (if p \<notin> sendCallbacks s then s
      else
        (let s0 = s\<lparr>sendCallbacks := sendCallbacks s - {p}\<rparr> in
         case err of
           None \<Rightarrow> s0
         | Some e \<Rightarrow>
             (case calls s0 p of
                None \<Rightarrow> s0
              | Some c \<Rightarrow>
                  settle p (Rejected (SendFailure e))
                    ((clearCallTimer p s0)\<lparr>pending := AList.delete (call_id c) (pending s0)\<rparr>))))"

definition handleResponse :: "response_message \<Rightarrow> bridge \<Rightarrow> bridge" where
  "handleResponse msg s =
     (case map_of (pending s) (resp_id msg) of
        None \<Rightarrow> s
      | Some p \<Rightarrow>
          (let s1 = (clearCallTimer p s)\<lparr>pending := AList.delete (resp_id msg) (pending s)\<rparr> in
           case resp_error msg of
             Some e \<Rightarrow> settle p (Rejected (RemoteError (err_message e) (err_code e) (err_data e))) s1
           | None \<Rightarrow> settle p (Resolved (resp_result msg)) s1))"

subsection \<open>Keepalive\<close>

definition stopKeepAlive :: "bridge \<Rightarrow> bridge" where
  "stopKeepAlive s = s\<lparr>keepAliveTimer := False, keepAliveInFlight := False\<rparr>"

definition startKeepAlive :: "bridge \<Rightarrow> bridge" where
  "startKeepAlive s = (if keepAliveTimer s then s else s\<lparr>keepAliveTimer := True\<rparr>)"

text \<open>One tick of the keepalive interval, \<open>uuid\<close> being the id its ping would get.\<close>

definition keepAliveTick :: "string \<Rightarrow> bridge \<Rightarrow> bridge" where
  "keepAliveTick uuid s =
     (if \<not> keepAliveTimer s then s
      else if keepAliveInFlight s then s
      else case socket s of
             None \<Rightarrow> s
           | Some ws \<Rightarrow>
               if readyState s ws \<noteq> Some OPEN then s
               else (case call uuid ''ping'' 5000 (s\<lparr>keepAliveInFlight := True\<rparr>) of
                       Inl e \<Rightarrow> s\<lparr>keepAliveInFlight := False\<rparr>
                     | Inr s' \<Rightarrow> s'\<lparr>keepAlivePings := insert (nextPromise s) (keepAlivePings s')\<rparr>))"

subsection \<open>Connections\<close>

text \<open>
  \<^verbatim>\<open>#handleConnection(ws, remoteAddress)\<close> up to the registration of its handlers:
  the handshake timer is armed for 5000 ms.
\<close>

definition handleConnection :: "nat \<Rightarrow> string option \<Rightarrow> bridge \<Rightarrow> bridge" where
  "handleConnection ws addr s =
     s\<lparr>readyState := (readyState s)(ws \<mapsto> OPEN),
       peerAddress := (peerAddress s)(ws := addr),
       handshaked := handshaked s - {ws},
       handshakeTimers := (handshakeTimers s)(ws \<mapsto> 5000)\<rparr>"

text \<open>The handshake timer of the socket \<open>ws\<close>, run when it fires.\<close>

definition handshakeTimerFired :: "nat \<Rightarrow> bridge \<Rightarrow> bridge" where
  "handshakeTimerFired ws s =
     (case handshakeTimers s ws of
        None \<Rightarrow> s
      | Some ms \<Rightarrow>
          (let s0 = s\<lparr>handshakeTimers := (handshakeTimers s)(ws := None)\<rparr>
           in if ws \<notin> handshaked s0 then ws_close ws 4001 ''Handshake timeout'' s0 else s0))"

text \<open>
  The \<^verbatim>\<open>message\<close> handler of the socket \<open>ws\<close>; \<open>parsed\<close> is what \<^verbatim>\<open>JSON.parse\<close>
  makes of the frame, \<open>None\<close> when it throws. \<open>acceptHello\<close> is the part of the
  handler that follows a successful parse of the hello.
\<close>

definition acceptHello :: "int \<Rightarrow> nat \<Rightarrow> hello_message \<Rightarrow> bridge \<Rightarrow> bridge" where
  "acceptHello now ws hello s =
     (let s1 = s\<lparr>handshakeTimers := (handshakeTimers s)(ws := None),
                 handshaked := insert ws (handshaked s)\<rparr>;
          s2 = stopKeepAlive s1;
          s3 = (case socket s2 of
                  None \<Rightarrow> s2
                | Some old \<Rightarrow> ws_close old 4000 ''Replaced by new connection'' s2);
          s4 = s3\<lparr>socket := Some ws, clientHello := Some hello,
                  connectedAt := Some now, remoteAddress := peerAddress s3 ws\<rparr>
      in startKeepAlive s4)"

definition onMessage :: "int \<Rightarrow> nat \<Rightarrow> json option \<Rightarrow> bridge \<Rightarrow> bridge" where
  "onMessage now ws parsed s =
     (case parsed of
        None \<Rightarrow> s
      | Some j \<Rightarrow>
          if ws \<notin> handshaked s then
            (case parseHello j of
               None \<Rightarrow> ws_close ws 4002 ''Invalid hello'' s
             | Some hello \<Rightarrow> acceptHello now ws hello s)
          else (case parseResponse j of
                  None \<Rightarrow> s
                | Some msg \<Rightarrow> handleResponse msg s))"

text \<open>The loop of the \<^verbatim>\<open>close\<close> handler over the entries of \<^verbatim>\<open>#pending\<close>.\<close>

fun rejectAndDelete :: "call_error \<Rightarrow> (string \<times> nat) list \<Rightarrow> bridge \<Rightarrow> bridge" where
  "rejectAndDelete err [] s = s"
| "rejectAndDelete err ((uuid, p) # rest) s =
     rejectAndDelete err rest
       ((settle p (Rejected err) (clearCallTimer p s))
          \<lparr>pending := AList.delete uuid (pending (settle p (Rejected err) (clearCallTimer p s)))\<rparr>)"

text \<open>The \<^verbatim>\<open>close\<close> handler of the socket \<open>ws\<close>.\<close>

definition onClose :: "nat \<Rightarrow> bridge \<Rightarrow> bridge" where
  "onClose ws s =
     (let s0 = s\<lparr>handshakeTimers := (handshakeTimers s)(ws := None),
                 readyState := (readyState s)(ws \<mapsto> CLOSED)\<rparr>;
          s1 = (if socket s0 = Some ws
                then (stopKeepAlive s0)\<lparr>socket := None, clientHello := None,
                                        connectedAt := None, remoteAddress := None\<rparr>
                else s0)
      in rejectAndDelete BridgeDisconnected (pending s1) s1)"

text \<open>The loop of \<^verbatim>\<open>close()\<close> over the entries of \<^verbatim>\<open>#pending\<close>.\<close>

fun rejectAll :: "call_error \<Rightarrow> (string \<times> nat) list \<Rightarrow> bridge \<Rightarrow> bridge" where
  "rejectAll err [] s = s"
| "rejectAll err ((uuid, p) # rest) s =
     rejectAll err rest (settle p (Rejected err) (clearCallTimer p s))"

text \<open>\<^verbatim>\<open>close()\<close> of the bridge.\<close>

definition close :: "bridge \<Rightarrow> bridge" where
  "close s =
     (let s1 = stopKeepAlive s;
          s2 = (rejectAll BridgeClosed (pending s1) s1)\<lparr>pending := []\<rparr>;
          s3 = (case socket s2 of
                  None \<Rightarrow> s2
                | Some ws \<Rightarrow> ws_close ws 1000 ''Bridge closed'' s2)
      in s3\<lparr>socket := None, clientHello := None, connectedAt := None,
            remoteAddress := None, serverClosed := True\<rparr>)"

subsection \<open>The bridge as a transition system\<close>

text \<open>
  What can happen to a bridge. A socket connects once, while the server listens; it
  delivers frames and its \<^verbatim>\<open>close\<close> event only while it exists and has not closed.
\<close>

datatype bridge_event =
    Connection nat "string option"
  | HandshakeTimeout nat
  | Frame nat "json option"
  | SocketClosed nat
  | Call string string nat
  | CallTimerFires nat
  | SendReports nat "string option"
  | KeepAliveFires string
  | Close

definition alive :: "bridge \<Rightarrow> nat \<Rightarrow> bool" where
  "alive s ws \<longleftrightarrow> readyState s ws = Some OPEN \<or> readyState s ws = Some CLOSING"

fun bridge_step :: "int \<Rightarrow> bridge_event \<Rightarrow> bridge \<Rightarrow> bridge" where
  "bridge_step now (Connection ws addr) s =
     (if readyState s ws = None \<and> \<not> serverClosed s then handleConnection ws addr s else s)"
| "bridge_step now (HandshakeTimeout ws) s = handshakeTimerFired ws s"
| "bridge_step now (Frame ws parsed) s = (if alive s ws then onMessage now ws parsed s else s)"
| "bridge_step now (SocketClosed ws) s = (if alive s ws then onClose ws s else s)"
| "bridge_step now (Call uuid method timeoutMs) s =
     (case call uuid method timeoutMs s of Inl e \<Rightarrow> s | Inr s' \<Rightarrow> s')"
| "bridge_step now (CallTimerFires p) s = callTimerFired p s"
| "bridge_step now (SendReports p err) s = sendCallback p err s"
| "bridge_step now (KeepAliveFires uuid) s = keepAliveTick uuid s"
| "bridge_step now Close s = close s"

fun bridge_run :: "(int \<times> bridge_event) list \<Rightarrow> bridge \<Rightarrow> bridge" where
  "bridge_run [] s = s"
| "bridge_run ((now, e) # rest) s = bridge_run rest (bridge_step now e s)"

text \<open>
  What holds of every bridge a run can reach: \<^verbatim>\<open>#pending\<close> has one entry for a
  key; an entry of \<^verbatim>\<open>#pending\<close> belongs to
  an unsettled promise whose call was given the id of the entry; promises are
  numbered below \<open>nextPromise\<close>; a socket that has shaken hands and is still open is
  the one in \<^verbatim>\<open>#socket\<close>, and the one in \<^verbatim>\<open>#socket\<close> has shaken hands and has not
  closed.
\<close>

definition bridge_inv :: "bridge \<Rightarrow> bool" where
  "bridge_inv s \<longleftrightarrow>
     distinct (map fst (pending s))
   \<and> (\<forall>i p. map_of (pending s) i = Some p \<longrightarrow>
        (\<exists>c. calls s p = Some c \<and> call_id c = i) \<and> settled s p = None)
   \<and> (\<forall>p c. calls s p = Some c \<longrightarrow> p < nextPromise s)
   \<and> (\<forall>p out. settled s p = Some out \<longrightarrow> p < nextPromise s)
   \<and> (\<forall>ws. ws \<in> handshaked s \<and> readyState s ws = Some OPEN \<longrightarrow> socket s = Some ws)
   \<and> (\<forall>ws. socket s = Some ws \<longrightarrow> ws \<in> handshaked s \<and> alive s ws)"

text \<open>
  The events a call may complete in reaction to: a response bearing the id of the
  call, the timeout of its own promise, a failure reported by its own send, and the
  loss of its connection, be it the \<^verbatim>\<open>close\<close> event of the socket the call was sent
  on or the bridge being closed. The \<^verbatim>\<open>close\<close> event of any other socket is none of
  them.
\<close>

fun reaction_to :: "call_info \<Rightarrow> nat \<Rightarrow> bridge_event \<Rightarrow> bool" where
  "reaction_to c p (Frame ws (Some j)) =
     (case parseResponse j of None \<Rightarrow> False | Some msg \<Rightarrow> resp_id msg = call_id c)"
| "reaction_to c p (CallTimerFires q) = (q = p)"
| "reaction_to c p (SendReports q (Some err)) = (q = p)"
| "reaction_to c p (SocketClosed ws) = (ws = call_socket c)"
| "reaction_to c p Close = True"
| "reaction_to c p _ = False"

text \<open>A frame that decodes as a hello, delivered on the socket \<open>ws\<close>.\<close>

fun hello_on :: "nat \<Rightarrow> bridge_event \<Rightarrow> bool" where
  "hello_on ws (Frame w (Some j)) = (w = ws \<and> parseHello j \<noteq> None)"
| "hello_on ws _ = False"

text \<open>A live connection: a socket that has shaken hands and is open.\<close>

definition live :: "bridge \<Rightarrow> nat \<Rightarrow> bool" where
  "live s ws \<longleftrightarrow> ws \<in> handshaked s \<and> readyState s ws = Some OPEN"


text \<open>
  Frames and runs used as examples: a hello, a response, a first socket that shakes
  hands, and a second one that replaces it and is then given a call.
\<close>

definition hello_frame :: json where
  "hello_frame = JObj [(''type'', JStr ''hello''), (''app'', JObj [(''name'', JStr ''eda'')])]"

definition response_frame :: "string \<Rightarrow> json" where
  "response_frame uuid =
     JObj [(''type'', JStr ''response''), (''id'', JStr uuid), (''result'', JStr ''pong'')]"

definition one_peer :: bridge where
  "one_peer =
     bridge_run [(0, Connection 1 None), (10, Frame 1 (Some hello_frame)),
                 (20, Call ''id-1'' ''ping'' 30000)] new_bridge"

definition two_peers :: bridge where
  "two_peers =
     bridge_run [(30, Connection 2 None), (40, Frame 2 (Some hello_frame)),
                 (50, Call ''id-2'' ''getStatus'' 30000)] one_peer"

definition second_socket :: bridge where
  "second_socket = bridge_run [(30, Connection 2 None)] one_peer"

definition fresh_socket :: bridge where
  "fresh_socket = bridge_step 0 (Connection 1 None) new_bridge"

section \<open>The netlist parsers\<close>

subsection \<open>Strings\<close>

text \<open>
  Strings are lists of characters, and the functions below are those of JavaScript on
  strings of ASCII characters: white space is tab, line feed, vertical tab, form feed,
  carriage return and space; the line terminators that \<^verbatim>\<open>.\<close> does not match are line
  feed and carriage return; only the letters a to z have an upper case. Beyond ASCII
  JavaScript has more of each (the no-break space and the byte order mark are white
  space, the line and paragraph separators are line terminators, \<^verbatim>\<open>toUpperCase\<close>
  maps letters with accents and may lengthen the string), which these functions do not
  follow: what is proved of them is proved of \<open>isAscii\<close> strings.
\<close>

definition isAscii :: "string \<Rightarrow> bool" where
  "isAscii s = list_all (\<lambda>c. of_char c < (128 :: nat)) s"

definition isWhite :: "char \<Rightarrow> bool" where
  "isWhite c \<longleftrightarrow> c \<in> {CHR 0x09, CHR 0x0A, CHR 0x0B, CHR 0x0C, CHR 0x0D, CHR '' ''}"

definition isLineTerminator :: "char \<Rightarrow> bool" where
  "isLineTerminator c \<longleftrightarrow> c = CHR 0x0A \<or> c = CHR 0x0D"

definition isUpperLetter :: "char \<Rightarrow> bool" where
  "isUpperLetter c \<longleftrightarrow> c \<in> set ''ABCDEFGHIJKLMNOPQRSTUVWXYZ''"

definition isLetter :: "char \<Rightarrow> bool" where
  "isLetter c \<longleftrightarrow> isUpperLetter c \<or> c \<in> set ''abcdefghijklmnopqrstuvwxyz''"

definition isDigit :: "char \<Rightarrow> bool" where
  "isDigit c \<longleftrightarrow> c \<in> set ''0123456789''"

text \<open>The class \<^verbatim>\<open>[A-Za-z0-9_]\<close>, which is also what \<^verbatim>\<open>\b\<close> counts as a word.\<close>

definition isWordChar :: "char \<Rightarrow> bool" where
  "isWordChar c \<longleftrightarrow> isLetter c \<or> isDigit c \<or> c = CHR ''_''"

definition toUpperChar :: "char \<Rightarrow> char" where
  "toUpperChar c =
     (case map_of (zip ''abcdefghijklmnopqrstuvwxyz'' ''ABCDEFGHIJKLMNOPQRSTUVWXYZ'') c of
        None \<Rightarrow> c
      | Some u \<Rightarrow> u)"

definition toUpperCase :: "string \<Rightarrow> string" where
  "toUpperCase s = map toUpperChar s"

definition trim :: "string \<Rightarrow> string" where
  "trim s = rev (dropWhile isWhite (rev (dropWhile isWhite s)))"

fun startsWith :: "string \<Rightarrow> string \<Rightarrow> bool" where
  "startsWith [] s = True"
| "startsWith (p # ps) [] = False"
| "startsWith (p # ps) (c # cs) = (p = c \<and> startsWith ps cs)"

text \<open>\<^verbatim>\<open>s.includes(pat)\<close>.\<close>

fun includesStr :: "string \<Rightarrow> string \<Rightarrow> bool" where
  "includesStr [] pat = (pat = [])"
| "includesStr (c # cs) pat = (startsWith pat (c # cs) \<or> includesStr cs pat)"

text \<open>
  A literal of a regular expression with the flag \<^verbatim>\<open>i\<close>, at the head of \<open>s\<close>; the
  literal is given in upper case.
\<close>

definition startsWithCI :: "string \<Rightarrow> string \<Rightarrow> bool" where
  "startsWithCI pat s = startsWith pat (toUpperCase (take (length pat) s))"

text \<open>\<^verbatim>\<open>text.split(/\r?\n/)\<close>.\<close>

fun splitLines :: "string \<Rightarrow> string list" where
  "splitLines [] = [[]]"
| "splitLines (c # cs) =
     (if c = CHR 0x0A then [] # splitLines cs
      else if c = CHR 0x0D \<and> startsWith [CHR 0x0A] cs then [] # splitLines (tl cs)
      else (case splitLines cs of
              [] \<Rightarrow> [[c]]
            | l # ls \<Rightarrow> (c # l) # ls))"

text \<open>\<^verbatim>\<open>lines.join('\n')\<close>.\<close>

fun joinLines :: "string list \<Rightarrow> string" where
  "joinLines [] = []"
| "joinLines [l] = l"
| "joinLines (l # ls) = l @ CHR 0x0A # joinLines ls"

text \<open>
  The pieces of \<^verbatim>\<open>s.split(/\s+/)\<close> that are not empty: the maximal runs of
  characters that are not white space.
\<close>

function splitWhite :: "string \<Rightarrow> string list" where
  "splitWhite s =
     (case dropWhile isWhite s of
        [] \<Rightarrow> []
      | c # cs \<Rightarrow> takeWhile (\<lambda>x. \<not> isWhite x) (c # cs)
                 # splitWhite (dropWhile (\<lambda>x. \<not> isWhite x) cs))"
  by pat_completeness auto
termination
proof (relation "measure length")
  show "wf (measure length)" by simp
next
  fix s :: string and c cs
  assume "dropWhile isWhite s = c # cs"
  then have "length (c # cs) \<le> length s"
    by (metis length_dropWhile_le)
  moreover have "length (dropWhile (\<lambda>x. \<not> isWhite x) cs) \<le> length cs"
    by (rule length_dropWhile_le)
  ultimately show "(dropWhile (\<lambda>x. \<not> isWhite x) cs, s) \<in> measure length" by simp
qed

subsection \<open>Normalisation\<close>

text \<open>
  \<^verbatim>\<open>s.replace(/^"(.*)"$/, '$1')\<close>: a string in double quotes with no line terminator
  between them loses the quotes.
\<close>

definition stripQuotes :: "string \<Rightarrow> string" where
  "stripQuotes s =
     (case s of
        [] \<Rightarrow> s
      | c # rest \<Rightarrow>
          if c = CHR 0x22 \<and> rest \<noteq> [] \<and> last rest = CHR 0x22
             \<and> \<not> list_ex isLineTerminator (butlast rest)
          then butlast rest else s)"

definition normalizeNetName :: "string \<Rightarrow> string" where
  "normalizeNetName name = toUpperCase (stripQuotes (trim name))"

definition normalizeRef :: "string \<Rightarrow> string" where
  "normalizeRef r = toUpperCase (trim r)"

definition normalizePin :: "string \<Rightarrow> string" where
  "normalizePin p = toUpperCase (trim p)"

record endpoint =
  ref :: string
  pin :: string

subsection \<open>The regular expressions of the text parser\<close>

text \<open>
  \<^verbatim>\<open>/^[A-Z]{1,6}\d+[A-Z]?$/.test(token.toUpperCase())\<close>: one to six letters, then
  digits, then at most one letter.
\<close>

definition looksLikeRef :: "string \<Rightarrow> bool" where
  "looksLikeRef token =
     (let u = toUpperCase token;
          letters = takeWhile isUpperLetter u;
          rest = dropWhile isUpperLetter u;
          digits = takeWhile isDigit rest;
          tail = dropWhile isDigit rest
      in 1 \<le> length letters \<and> length letters \<le> 6 \<and> digits \<noteq> []
         \<and> (tail = [] \<or> (length tail = 1 \<and> isUpperLetter (hd tail))))"

text \<open>\<^verbatim>\<open>token.replace(/^[\s,;()]+|[\s,;()]+$/g, '')\<close>.\<close>

definition isPunct :: "char \<Rightarrow> bool" where
  "isPunct c \<longleftrightarrow> isWhite c \<or> c \<in> set '',;()''"

definition stripPunct :: "string \<Rightarrow> string" where
  "stripPunct token = rev (dropWhile isPunct (rev (dropWhile isPunct token)))"

text \<open>
  \<^verbatim>\<open>line.replace(/[,\t]/g, ' ').split(/\s+/).map(stripPunct).filter(Boolean)\<close>, the
  token list both extractors start from.
\<close>

definition tokens :: "string \<Rightarrow> string list" where
  "tokens line =
     filter (\<lambda>t. t \<noteq> [])
       (map stripPunct
          (splitWhite (map (\<lambda>c. if c = CHR '','' \<or> c = CHR 0x09 then CHR '' '' else c) line)))"

text \<open>
  \<^verbatim>\<open>/^([A-Za-z]{1,6}\d+[A-Za-z]?)[-.:]([A-Za-z0-9_]+)$/.exec(t)\<close>: the two groups of
  the match.
\<close>

definition matchInline :: "string \<Rightarrow> (string \<times> string) option" where
  "matchInline t =
     (let letters = takeWhile isLetter t;
          rest = dropWhile isLetter t;
          digits = takeWhile isDigit rest;
          rest2 = dropWhile isDigit rest;
          suffix = (case rest2 of c # cs \<Rightarrow> if isLetter c then [c] else [] | [] \<Rightarrow> []);
          rest3 = drop (length suffix) rest2
      in if 1 \<le> length letters \<and> length letters \<le> 6 \<and> digits \<noteq> [] then
           (case rest3 of
              [] \<Rightarrow> None
            | sep # word \<Rightarrow>
                if sep \<in> set ''-.:'' \<and> word \<noteq> [] \<and> list_all isWordChar word
                then Some (letters @ digits @ suffix, word) else None)
         else None)"

definition extractRefPinInlineTokens :: "string \<Rightarrow> endpoint list" where
  "extractRefPinInlineTokens line =
     concat (map (\<lambda>t. case matchInline t of
                         None \<Rightarrow> []
                       | Some (g1, g2) \<Rightarrow> [\<lparr>ref = normalizeRef g1, pin = normalizePin g2\<rparr>])
                 (tokens line))"

text \<open>The local function \<^verbatim>\<open>tryPair\<close>; \<open>None\<close> for a token is \<^verbatim>\<open>undefined\<close>.\<close>

definition tryPair :: "string option \<Rightarrow> string option \<Rightarrow> endpoint option" where
  "tryPair refToken pinToken =
     (case (refToken, pinToken) of
        (Some rt, Some pt) \<Rightarrow>
          if rt = [] \<or> pt = [] then None
          else (let r = normalizeRef rt; p = normalizePin pt
                in if \<not> looksLikeRef r then None
                   else if p = [] then None
                   else Some \<lparr>ref = r, pin = p\<rparr>)
      | _ \<Rightarrow> None)"

text \<open>\<^verbatim>\<open>tokens[i]\<close>.\<close>

definition nth_opt :: "'a list \<Rightarrow> nat \<Rightarrow> 'a option" where
  "nth_opt xs i = (if i < length xs then Some (xs ! i) else None)"

definition extractRefPinPair :: "string \<Rightarrow> endpoint option" where
  "extractRefPinPair line =
     (let ts = tokens line
      in if map_option toUpperCase (nth_opt ts 0) = Some ''*PIN*''
         then tryPair (nth_opt ts 1) (nth_opt ts 2)
         else if length ts = 2 then tryPair (nth_opt ts 0) (nth_opt ts 1)
         else None)"

text \<open>
  The end of the net-start expression, tried where \<^verbatim>\<open>(name\<close> may begin:
  \<^verbatim>\<open>\(name\s+("?)([^")]+)\1\)\s*\)?\s*$\<close>, giving its second group. The white space
  after \<^verbatim>\<open>(name\<close> is taken whole; only when the name that follows would be empty does
  the expression give the last white space back to the name.
\<close>

definition closesNet :: "string \<Rightarrow> bool" where
  "closesNet r =
     (case dropWhile isWhite r of
        [] \<Rightarrow> True
      | c # cs \<Rightarrow> c = CHR '')'' \<and> dropWhile isWhite cs = [])"

definition isNameChar :: "char \<Rightarrow> bool" where
  "isNameChar c \<longleftrightarrow> c \<noteq> CHR 0x22 \<and> c \<noteq> CHR '')''"

definition matchNameTail :: "string \<Rightarrow> string option" where
  "matchNameTail t =
     (if \<not> startsWithCI ''(NAME'' t then None
      else
        (let u = drop 5 t;
             white = takeWhile isWhite u;
             w = dropWhile isWhite u
         in if white = [] then None
            else case w of
              [] \<Rightarrow> None
            | c # cs \<Rightarrow>
                if c = CHR 0x22 then
                  (let body = takeWhile isNameChar cs; after = dropWhile isNameChar cs
                   in if body \<noteq> [] \<and> startsWith [CHR 0x22, CHR '')''] after
                         \<and> closesNet (drop 2 after)
                      then Some body else None)
                else
                  (let body = takeWhile isNameChar w; after = dropWhile isNameChar w
                   in if body \<noteq> [] then
                        (if startsWith '')'' after \<and> closesNet (drop 1 after)
                         then Some body else None)
                      else if 2 \<le> length white \<and> closesNet (drop 1 after)
                      then Some [last white] else None)))"

text \<open>
  The lazy \<^verbatim>\<open>.*?\<close> before \<^verbatim>\<open>(name\<close>: the first place, reached over characters that
  are no line terminators, where the end of the expression matches.
\<close>

fun searchNameTail :: "string \<Rightarrow> string option" where
  "searchNameTail [] = matchNameTail []"
| "searchNameTail (c # cs) =
     (case matchNameTail (c # cs) of
        Some g \<Rightarrow> Some g
      | None \<Rightarrow> if isLineTerminator c then None else searchNameTail cs)"

text \<open>
  \<^verbatim>\<open>/^\s*\(net\b.*?\(name\s+("?)([^")]+)\1\)\s*\)?\s*$/i.exec(line)\<close>, giving the
  second group.
\<close>

definition parseKiCadSexprNetStart :: "string \<Rightarrow> string option" where
  "parseKiCadSexprNetStart line =
     (let s = dropWhile isWhite line in
      if \<not> startsWithCI ''(NET'' s then None
      else (case drop 4 s of
              [] \<Rightarrow> None
            | c # cs \<Rightarrow> if isWordChar c then None else searchNameTail (c # cs)))"

text \<open>
  \<^verbatim>\<open>\(ref\s+("?)([^")\s]+)\1\)\<close> and its twin for \<^verbatim>\<open>pin\<close>, tried at the head of
  \<open>t\<close> for the given upper-case literal, and then searched for from the left.
\<close>

definition isAtomChar :: "char \<Rightarrow> bool" where
  "isAtomChar c \<longleftrightarrow> c \<noteq> CHR 0x22 \<and> c \<noteq> CHR '')'' \<and> \<not> isWhite c"

definition matchAtomHere :: "string \<Rightarrow> string \<Rightarrow> string option" where
  "matchAtomHere lit t =
     (if \<not> startsWithCI lit t then None
      else
        (let u = drop (length lit) t; w = dropWhile isWhite u
         in if takeWhile isWhite u = [] then None
            else case w of
              [] \<Rightarrow> None
            | c # cs \<Rightarrow>
                if c = CHR 0x22 then
                  (let body = takeWhile isAtomChar cs; after = dropWhile isAtomChar cs
                   in if body \<noteq> [] \<and> startsWith [CHR 0x22, CHR '')''] after
                      then Some body else None)
                else
                  (let body = takeWhile isAtomChar w; after = dropWhile isAtomChar w
                   in if body \<noteq> [] \<and> startsWith '')'' after then Some body else None)))"

fun searchAtom :: "string \<Rightarrow> string \<Rightarrow> string option" where
  "searchAtom lit [] = None"
| "searchAtom lit (c # cs) =
     (case matchAtomHere lit (c # cs) of
        Some g \<Rightarrow> Some g
      | None \<Rightarrow> searchAtom lit cs)"

definition parseKiCadSexprNode :: "string \<Rightarrow> endpoint option" where
  "parseKiCadSexprNode line =
     (case (searchAtom ''(REF'' line, searchAtom ''(PIN'' line) of
        (Some r, Some p) \<Rightarrow> Some \<lparr>ref = normalizeRef r, pin = normalizePin p\<rparr>
      | _ \<Rightarrow> None)"

text \<open>
  \<^verbatim>\<open>/^\s*\*NET\*\s+(.+?)\s*$/i\<close> and \<^verbatim>\<open>/^\s*\$NET\s+(.+?)\s*$/i\<close>, for the given
  upper-case marker, on a line that \<^verbatim>\<open>trim()\<close> has freed of white space at both
  ends: the group is what follows the marker and its white space, and has no line
  terminator in it.
\<close>

definition matchNetMarker :: "string \<Rightarrow> string \<Rightarrow> string option" where
  "matchNetMarker marker line =
     (let s = dropWhile isWhite line in
      if \<not> startsWithCI marker s then None
      else
        (let u = drop (length marker) s; g = dropWhile isWhite u
         in if takeWhile isWhite u = [] \<or> g = [] \<or> list_ex isLineTerminator g then None
            else Some g))"

text \<open>
  \<^verbatim>\<open>/^\s*NET\s+("?)([^"]+)\1\s*$/i\<close> on such a line, giving the second group: a
  quoted name, or the rest of the line when it has no double quote.
\<close>

definition matchPlainNet :: "string \<Rightarrow> string option" where
  "matchPlainNet line =
     (let s = dropWhile isWhite line in
      if \<not> startsWithCI ''NET'' s then None
      else
        (let u = drop 3 s; r = dropWhile isWhite u
         in if takeWhile isWhite u = [] then None
            else case r of
              [] \<Rightarrow> None
            | c # cs \<Rightarrow>
                if c = CHR 0x22 then
                  (let body = takeWhile (\<lambda>x. x \<noteq> CHR 0x22) cs;
                       after = dropWhile (\<lambda>x. x \<noteq> CHR 0x22) cs
                   in if body \<noteq> [] \<and> after \<noteq> [] \<and> dropWhile isWhite (tl after) = []
                      then Some body else None)
                else if CHR 0x22 \<in> set r then None
                else Some r))"

text \<open>\<^verbatim>\<open>/^\s*\*END\*\s*$/i.test(line) || /^\s*\$ENDNETS\b/i.test(line)\<close>.\<close>

definition isEndMarker :: "string \<Rightarrow> bool" where
  "isEndMarker line =
     (let s = dropWhile isWhite line in
      (startsWithCI ''*END*'' s \<and> dropWhile isWhite (drop 5 s) = [])
      \<or> (startsWithCI ''$ENDNETS'' s
          \<and> (case drop 8 s of [] \<Rightarrow> True | c # cs \<Rightarrow> \<not> isWordChar c)))"

subsection \<open>The net table\<close>

text \<open>
  \<^verbatim>\<open>netsByKey\<close>: a \<^verbatim>\<open>Map\<close> from the normalised name to the entry with the trimmed
  name and its \<^verbatim>\<open>Map\<close> of endpoints, both in order of insertion. \<^verbatim>\<open>Map.set\<close> on a key
  that is present replaces the value where it stands.
\<close>

type_synonym net_entry = "string \<times> (string \<times> endpoint) list"

type_synonym net_table = "(string \<times> net_entry) list"

definition ensureNet :: "string \<Rightarrow> net_table \<Rightarrow> net_table" where
  "ensureNet name t =
     (let key = normalizeNetName name
      in case map_of t key of
           Some entry \<Rightarrow> t
         | None \<Rightarrow> t @ [(key, (trim name, []))])"

text \<open>The key \<^verbatim>\<open>`${ep.ref}.${ep.pin}`\<close>.\<close>

definition endpointKey :: "endpoint \<Rightarrow> string" where
  "endpointKey ep = ref ep @ ''.'' @ pin ep"

text \<open>
  \<^verbatim>\<open>const net = ensureNet(name); net.endpoints.set(`${ep.ref}.${ep.pin}`, ep)\<close>.
\<close>

definition addEndpoint :: "string \<Rightarrow> endpoint \<Rightarrow> net_table \<Rightarrow> net_table" where
  "addEndpoint name ep t =
     (let t1 = ensureNet name t; key = normalizeNetName name
      in case map_of t1 key of
           None \<Rightarrow> t1
         | Some (nm, eps) \<Rightarrow> AList.update key (nm, AList.update (endpointKey ep) ep eps) t1)"

text \<open>
  The result object \<^verbatim>\<open>nets\<close>, as the list of its properties in the order they are
  first assigned: \<^verbatim>\<open>nets[normalizeNetName(entry.name)] = list\<close> for each entry.
  JavaScript enumerates the properties whose name is an array index before the others
  and in ascending order; the list here is to be read as the map from names to
  endpoints, and its order as that of assignment only.
\<close>

definition netsOf :: "net_table \<Rightarrow> (string \<times> endpoint list) list" where
  "netsOf t =
     fold (\<lambda>(key, (nm, eps)) acc. AList.update (normalizeNetName nm) (map snd eps) acc) t []"

definition endpointCount :: "net_table \<Rightarrow> nat" where
  "endpointCount t = sum_list (map (\<lambda>(key, (nm, eps)). length eps) t)"

subsection \<open>The text parser\<close>

record parsed_netlist =
  ok :: bool
  formatGuess :: "string option"
  warnings :: "string list"
  nets :: "(string \<times> endpoint list) list"

text \<open>
  One round of the loop over the lines; the state is \<^verbatim>\<open>netsByKey\<close> with
  \<^verbatim>\<open>currentNet\<close>. An empty string is as false as \<^verbatim>\<open>undefined\<close>; the name a net
  start gives is never empty, so that \<^verbatim>\<open>if (netName)\<close> asks whether the expression
  matched. \<open>kicadLine\<close> is the body of \<^verbatim>\<open>if (isKiCadSexpr)\<close>, \<open>blockLine\<close> what
  follows it, \<open>endpointLine\<close> the end of the loop body from \<^verbatim>\<open>if (!currentNet)\<close> on.
\<close>

definition kicadLine :: "string \<Rightarrow> net_table \<times> string option \<Rightarrow> net_table \<times> string option" where
  "kicadLine line st =
     (case parseKiCadSexprNetStart line of
        Some netName \<Rightarrow> (ensureNet netName (fst st), Some netName)
      | None \<Rightarrow>
          (case snd st of
             None \<Rightarrow> st
           | Some cur \<Rightarrow>
               if cur = [] then st
               else (case parseKiCadSexprNode line of
                       None \<Rightarrow> st
                     | Some node \<Rightarrow> (addEndpoint cur node (fst st), snd st))))"

definition endpointLine :: "string \<Rightarrow> net_table \<times> string option \<Rightarrow> net_table \<times> string option" where
  "endpointLine line st =
     (case snd st of
        None \<Rightarrow> st
      | Some cur \<Rightarrow>
          if cur = [] then st
          else (let t1 = ensureNet cur (fst st) in
                case extractRefPinPair line of
                  Some pair \<Rightarrow> (addEndpoint cur pair t1, snd st)
                | None \<Rightarrow> (fold (addEndpoint cur) (extractRefPinInlineTokens line) t1, snd st)))"

definition blockLine :: "string \<Rightarrow> net_table \<times> string option \<Rightarrow> net_table \<times> string option" where
  "blockLine line st =
     (case matchNetMarker ''*NET*'' line of
        Some n \<Rightarrow> (ensureNet n (fst st), Some n)
      | None \<Rightarrow>
     (case matchNetMarker ''$NET'' line of
        Some n \<Rightarrow> (ensureNet n (fst st), Some n)
      | None \<Rightarrow>
     (case matchPlainNet line of
        Some n \<Rightarrow> (ensureNet n (fst st), Some n)
      | None \<Rightarrow>
          if isEndMarker line then (fst st, None)
          else endpointLine line st)))"

definition parseLine :: "bool \<Rightarrow> string \<Rightarrow> net_table \<times> string option \<Rightarrow> net_table \<times> string option" where
  "parseLine isKiCadSexpr raw st =
     (let line = trim raw in
      if line = [] then st
      else if isKiCadSexpr then kicadLine line st
      else blockLine line st)"

definition parseNetlist :: "string \<Rightarrow> parsed_netlist" where
  "parseNetlist text =
     (let lines = splitLines text;
          joined = joinLines (take 200 lines);
          isKiCadSexpr = (includesStr joined ''(net'' \<and> includesStr joined ''(node'');
          isPads = (includesStr joined ''*PADS-PCB*'' \<or> includesStr (toUpperCase joined) ''*NET*'');
          isAllegro = includesStr (toUpperCase joined) ''$NETS'';
          guess = (if isKiCadSexpr then Some ''kicad-sexp''
                   else if isPads then Some ''pads''
                   else if isAllegro then Some ''allegro'' else None);
          t = fst (fold (parseLine isKiCadSexpr) lines ([], None));
          result = netsOf t;
          ws = (if result = [] then [''No nets parsed from netlist text.''] else [])
               @ (if result \<noteq> [] \<and> endpointCount t = 0
                  then [''Nets were detected but no endpoints (Ref.Pin) could be parsed.'']
                  else [])
      in \<lparr>ok = (ws = []), formatGuess = guess, warnings = ws, nets = result\<rparr>)"

subsection \<open>The parser of the JSON dialect\<close>

record jlc_pin =
  jp_pin :: string
  jp_net :: string
  jp_name :: "string option"

record jlc_component =
  jc_ref :: string
  jc_value :: "string option"
  jc_footprintName :: "string option"
  jc_lcsc :: "string option"
  jc_manufacturer :: "string option"
  jc_mpn :: "string option"
  jc_datasheetUrl :: "string option"
  jc_jlcpcbPartClass :: "string option"
  jc_pins :: "jlc_pin list"
  jc_props :: "(string \<times> string) list"

record parsed_json_netlist =
  pj_ok :: bool
  pj_warnings :: "string list"
  pj_components :: "jlc_component list"
  pj_nets :: "(string \<times> endpoint list) list"

text \<open>\<^verbatim>\<open>asRecord(value)\<close>, for a value that may be \<^verbatim>\<open>undefined\<close>: the entries of an object.\<close>

fun asRecord :: "json option \<Rightarrow> (string \<times> json) list option" where
  "asRecord (Some (JObj kvs)) = Some kvs"
| "asRecord _ = None"

text \<open>\<^verbatim>\<open>asString(value)\<close>: a string, or a finite number as \<^verbatim>\<open>String\<close> prints it.\<close>

fun asString :: "json option \<Rightarrow> string option" where
  "asString (Some (JStr s)) = Some s"
| "asString (Some (JNum (Some s))) = Some s"
| "asString _ = None"

text \<open>\<^verbatim>\<open>a ?? b\<close>.\<close>

fun orElse :: "'a option \<Rightarrow> 'a option \<Rightarrow> 'a option" where
  "orElse (Some x) y = Some x"
| "orElse None y = y"

text \<open>\<^verbatim>\<open>asString(pinObj.net) ?? ''\<close> of a pin.\<close>

definition pinNet :: "(string \<times> json) list \<Rightarrow> string" where
  "pinNet pinObj = (case asString (map_of pinObj ''net'') of Some n \<Rightarrow> n | None \<Rightarrow> [])"

text \<open>\<^verbatim>\<open>asString(pinObj.number) ?? asString(pinObj['Pin Number']) ?? pinId\<close>.\<close>

definition pinNumber :: "string \<Rightarrow> (string \<times> json) list \<Rightarrow> string" where
  "pinNumber pinId pinObj =
     (case orElse (asString (map_of pinObj ''number'')) (asString (map_of pinObj ''Pin Number'')) of
        Some n \<Rightarrow> n
      | None \<Rightarrow> pinId)"

text \<open>
  One round of the loop over \<^verbatim>\<open>Object.entries(pinInfoMap)\<close> for a component with
  the reference \<open>r\<close>; the state is the list \<^verbatim>\<open>pins\<close> with \<^verbatim>\<open>netsByKey\<close>.
\<close>

definition parsePin :: "string \<Rightarrow> string \<times> json \<Rightarrow> jlc_pin list \<times> net_table \<Rightarrow> jlc_pin list \<times> net_table" where
  "parsePin r entry st =
     (case asRecord (Some (snd entry)) of
        None \<Rightarrow> st
      | Some pinObj \<Rightarrow>
          (let net = pinNet pinObj;
               number = pinNumber (fst entry) pinObj;
               name = asString (map_of pinObj ''name'');
               p = normalizePin number;
               pins = fst st @ [\<lparr>jp_pin = p, jp_net = net, jp_name = name\<rparr>]
           in if trim net = [] then (pins, snd st)
              else (pins, addEndpoint net \<lparr>ref = r, pin = p\<rparr> (snd st))))"

text \<open>
  A pin that the loop passes over without touching any net: its value is no object,
  or its net is empty once trimmed.
\<close>

definition netless :: "string \<times> json \<Rightarrow> bool" where
  "netless entry =
     (case asRecord (Some (snd entry)) of
        None \<Rightarrow> True
      | Some pinObj \<Rightarrow> trim (pinNet pinObj) = [])"

text \<open>
  The loop that copies the string-valued members of \<^verbatim>\<open>propsRaw\<close> into \<^verbatim>\<open>props\<close>.
  \<^verbatim>\<open>props\<close> is an object literal: the assignment \<^verbatim>\<open>props['__proto__'] = s\<close> runs the
  setter it inherits, which ignores a string and stores no property.
\<close>

definition copyProps :: "(string \<times> json) list \<Rightarrow> (string \<times> string) list" where
  "copyProps propsRaw =
     fold (\<lambda>(k, v) acc. case asString (Some v) of
                            None \<Rightarrow> acc
                          | Some str \<Rightarrow> if k = ''__proto__'' then acc else AList.update k str acc)
          propsRaw []"

text \<open>
  One round of the loop over \<^verbatim>\<open>Object.entries(componentsObj)\<close>; the state is the
  list \<^verbatim>\<open>components\<close> with \<^verbatim>\<open>netsByKey\<close>. \<open>propsOf\<close>, \<open>pinInfoMapOf\<close> and
  \<open>designatorOf\<close> are its \<^verbatim>\<open>propsRaw\<close>, \<open>pinInfoMap\<close> and \<^verbatim>\<open>designator\<close>.
\<close>

definition propsOf :: "(string \<times> json) list \<Rightarrow> (string \<times> json) list" where
  "propsOf compObj = (case asRecord (map_of compObj ''props'') of Some o1 \<Rightarrow> o1 | None \<Rightarrow> [])"

definition pinInfoMapOf :: "(string \<times> json) list \<Rightarrow> (string \<times> json) list" where
  "pinInfoMapOf compObj =
     (case asRecord (map_of compObj ''pinInfoMap'') of Some o2 \<Rightarrow> o2 | None \<Rightarrow> [])"

definition designatorOf :: "string \<Rightarrow> (string \<times> json) list \<Rightarrow> string" where
  "designatorOf compId propsRaw =
     (case orElse (asString (map_of propsRaw ''Designator''))
                  (asString (map_of propsRaw ''designator'')) of
        Some d \<Rightarrow> d
      | None \<Rightarrow> if compId \<noteq> [] then ''U?_'' @ compId else ''U?'')"

definition parseComponent ::
    "string \<times> json \<Rightarrow> jlc_component list \<times> net_table \<Rightarrow> jlc_component list \<times> net_table" where
  "parseComponent entry st =
     (case asRecord (Some (snd entry)) of
        None \<Rightarrow> st
      | Some compObj \<Rightarrow>
          (let compId = fst entry;
               propsRaw = propsOf compObj;
               pinInfoMap = pinInfoMapOf compObj;
               designator = designatorOf compId propsRaw;
               r = normalizeRef designator;
               fin = fold (parsePin r) pinInfoMap ([], snd st)
           in (fst st @
                 [\<lparr>jc_ref = r,
                   jc_value = orElse (asString (map_of propsRaw ''Value''))
                                     (asString (map_of propsRaw ''Name'')),
                   jc_footprintName = orElse (asString (map_of propsRaw ''FootprintName''))
                                             (asString (map_of propsRaw ''Supplier Footprint'')),
                   jc_lcsc = asString (map_of propsRaw ''Supplier Part''),
                   jc_manufacturer = asString (map_of propsRaw ''Manufacturer''),
                   jc_mpn = orElse (asString (map_of propsRaw ''Manufacturer Part''))
                                   (asString (map_of propsRaw ''DeviceName'')),
                   jc_datasheetUrl = asString (map_of propsRaw ''Datasheet''),
                   jc_jlcpcbPartClass = asString (map_of propsRaw ''JLCPCB Part Class''),
                   jc_pins = fst fin,
                   jc_props = copyProps propsRaw\<rparr>],
               snd fin)))"

text \<open>
  \<^verbatim>\<open>parseJlcJsonNetlist\<close> from the value \<^verbatim>\<open>root\<close> on; \<open>None\<close> is \<^verbatim>\<open>undefined\<close>, the
  answer that the dialect does not apply.
\<close>

definition parseJlcJsonRoot :: "json \<Rightarrow> parsed_json_netlist option" where
  "parseJlcJsonRoot root =
     (case asRecord (Some root) of
        None \<Rightarrow> None
      | Some rootObj \<Rightarrow>
          (case asRecord (map_of rootObj ''components'') of
             None \<Rightarrow> None
           | Some componentsObj \<Rightarrow>
               (let fin = fold parseComponent componentsObj ([], []);
                    components = fst fin;
                    t = snd fin;
                    result = netsOf t;
                    ws = (if components = [] then [''No components parsed from JSON netlist.''] else [])
                         @ (if result = [] then [''No nets parsed from JSON netlist.''] else [])
                         @ (if result \<noteq> [] \<and> endpointCount t = 0
                            then [''Nets were detected but no endpoints (Ref.Pin) could be parsed.'']
                            else [])
                in Some \<lparr>pj_ok = (ws = []), pj_warnings = ws, pj_components = components,
                         pj_nets = result\<rparr>)))"

text \<open>
  \<^verbatim>\<open>parseJlcJsonNetlist(text)\<close>. \<open>jsonParse\<close> stands for \<^verbatim>\<open>JSON.parse\<close>, \<open>None\<close>
  being a thrown \<^verbatim>\<open>SyntaxError\<close>.
\<close>

definition parseJlcJsonNetlist ::
    "(string \<Rightarrow> json option) \<Rightarrow> string \<Rightarrow> parsed_json_netlist option" where
  "parseJlcJsonNetlist jsonParse text =
     (let trimmed = trim text in
      if \<not> startsWith ''{'' trimmed then None
      else (case jsonParse trimmed of
              None \<Rightarrow> None
            | Some root \<Rightarrow> parseJlcJsonRoot root))"

text \<open>
  A value of \<^verbatim>\<open>JSON.parse\<close> all of whose strings, the names of members among them,
  are ASCII.
\<close>

fun asciiJson :: "json \<Rightarrow> bool" where
  "asciiJson (JStr s) = isAscii s"
| "asciiJson (JNum n) = (case n of None \<Rightarrow> True | Some s \<Rightarrow> isAscii s)"
| "asciiJson (JArr xs) = list_all asciiJson xs"
| "asciiJson (JObj kvs) = list_all (\<lambda>(k, v). isAscii k \<and> asciiJson v) kvs"
| "asciiJson _ = True"

text \<open>
  Examples: the text of the specification's test, a text whose net differs in case
  from its normal form, a JSON netlist of two components with one pin each on
  \<^verbatim>\<open>VCC\<close>, the second having two more pins without a net, the result of parsing it,
  the same netlist without the two pins that have no net, and a netlist of two
  components that bear the same designator and have the same pin on \<^verbatim>\<open>VCC\<close>.
\<close>

definition spec_text :: string where
  "spec_text =
     ''*NET* GND'' @ [CHR 0x0A] @ ''R1 2'' @ [CHR 0x0A] @ ''C1 1'' @ [CHR 0x0A]
     @ ''*NET* VCC'' @ [CHR 0x0A] @ ''U1 1'' @ [CHR 0x0A]"

definition mixed_case_text :: string where
  "mixed_case_text = ''*NET* Gnd'' @ [CHR 0x0A] @ ''R1 1'' @ [CHR 0x0A] @ ''$NET gnd''
     @ [CHR 0x0A] @ ''r1 1'' @ [CHR 0x0A] @ ''C1 2''"

definition vcc_root :: json where
  "vcc_root =
     JObj [(''components'',
       JObj [(''c1'', JObj [(''props'', JObj [(''Designator'', JStr ''R1'')]),
                           (''pinInfoMap'',
                             JObj [(''p1'', JObj [(''number'', JStr ''1''), (''net'', JStr ''VCC'')])])]),
             (''c2'', JObj [(''props'', JObj [(''Designator'', JStr ''U1'')]),
                           (''pinInfoMap'',
                             JObj [(''p1'', JObj [(''number'', JStr ''8''), (''net'', JStr ''VCC'')]),
                                   (''p2'', JObj [(''number'', JStr ''4''), (''net'', JStr [])]),
                                   (''p3'', JObj [(''number'', JStr ''5'')])])])])]"

definition pair_root :: json where
  "pair_root =
     JObj [(''components'',
       JObj [(''c1'', JObj [(''props'', JObj [(''Designator'', JStr ''R1'')]),
                           (''pinInfoMap'',
                             JObj [(''p1'', JObj [(''number'', JStr ''1''), (''net'', JStr ''VCC'')])])]),
             (''c2'', JObj [(''props'', JObj [(''Designator'', JStr ''U1'')]),
                           (''pinInfoMap'',
                             JObj [(''p1'', JObj [(''number'', JStr ''8''), (''net'', JStr ''VCC'')])])])])]"

definition twin_root :: json where
  "twin_root =
     JObj [(''components'',
       JObj [(''c1'', JObj [(''props'', JObj [(''Designator'', JStr ''R1'')]),
                           (''pinInfoMap'',
                             JObj [(''p1'', JObj [(''number'', JStr ''1''), (''net'', JStr ''VCC'')])])]),
             (''c2'', JObj [(''props'', JObj [(''Designator'', JStr ''R1'')]),
                           (''pinInfoMap'',
                             JObj [(''p1'', JObj [(''number'', JStr ''1''), (''net'', JStr ''VCC'')])])])])]"

definition vcc_result :: parsed_json_netlist where
  "vcc_result =
     \<lparr>pj_ok = True, pj_warnings = [],
      pj_components =
        [\<lparr>jc_ref = ''R1'', jc_value = None, jc_footprintName = None, jc_lcsc = None,
          jc_manufacturer = None, jc_mpn = None, jc_datasheetUrl = None,
          jc_jlcpcbPartClass = None,
          jc_pins = [\<lparr>jp_pin = ''1'', jp_net = ''VCC'', jp_name = None\<rparr>],
          jc_props = [(''Designator'', ''R1'')]\<rparr>,
         \<lparr>jc_ref = ''U1'', jc_value = None, jc_footprintName = None, jc_lcsc = None,
          jc_manufacturer = None, jc_mpn = None, jc_datasheetUrl = None,
          jc_jlcpcbPartClass = None,
          jc_pins = [\<lparr>jp_pin = ''8'', jp_net = ''VCC'', jp_name = None\<rparr>,
                     \<lparr>jp_pin = ''4'', jp_net = [], jp_name = None\<rparr>,
                     \<lparr>jp_pin = ''5'', jp_net = [], jp_name = None\<rparr>],
          jc_props = [(''Designator'', ''U1'')]\<rparr>],
      pj_nets = [(''VCC'', [\<lparr>ref = ''R1'', pin = ''1''\<rparr>, \<lparr>ref = ''U1'', pin = ''8''\<rparr>])]\<rparr>"

text \<open>
  What the claims ask of a result: within a net no two endpoints with the same pair of
  upper-cased reference and pin, every name in upper case already, and no two names
  equal up to case.
\<close>

definition canonical_nets :: "(string \<times> endpoint list) list \<Rightarrow> bool" where
  "canonical_nets r \<longleftrightarrow>
     (\<forall>(n, eps) \<in> set r.
        distinct (map (\<lambda>e. (toUpperCase (ref e), toUpperCase (pin e))) eps)
        \<and> toUpperCase n = n)
     \<and> distinct (map (\<lambda>(n, eps). toUpperCase n) r)"

text \<open>An endpoint whose fields are in upper case, and a table made of such.\<close>

definition upper_endpoint :: "endpoint \<Rightarrow> bool" where
  "upper_endpoint e \<longleftrightarrow> toUpperCase (ref e) = ref e \<and> toUpperCase (pin e) = pin e"

definition table_ok :: "net_table \<Rightarrow> bool" where
  "table_ok t \<longleftrightarrow>
     (\<forall>(k, (nm, eps)) \<in> set t.
        distinct (map fst eps)
        \<and> (\<forall>(ek, e) \<in> set eps. ek = endpointKey e \<and> upper_endpoint e))"

definition nets_ok :: "(string \<times> endpoint list) list \<Rightarrow> bool" where
  "nets_ok acc \<longleftrightarrow> distinct (map fst acc)
     \<and> (\<forall>(n, eps) \<in> set acc.
          distinct (map (\<lambda>e. (toUpperCase (ref e), toUpperCase (pin e))) eps)
          \<and> toUpperCase n = n)"

section \<open>Properties of the client\<close>

subsection \<open>What the helpers leave alone\<close>

lemma persistRuntime_frame [simp]:
  "connectionState (persistRuntime now f s) = connectionState s"
  "lastError (persistRuntime now f s) = lastError s"
  "autoEnabled (persistRuntime now f s) = autoEnabled s"
  "autoOpts (persistRuntime now f s) = autoOpts s"
  "autoTimer (persistRuntime now f s) = autoTimer s"
  "autoBackoffMs (persistRuntime now f s) = autoBackoffMs s"
  "autoMaxBackoffMs (persistRuntime now f s) = autoMaxBackoffMs s"
  "handshakeOk (persistRuntime now f s) = handshakeOk s"
  "transport (persistRuntime now f s) = transport s"
  "debugLog (persistRuntime now f s) = debugLog s"
  "lastConnectedAt (persistRuntime now f s) = lastConnectedAt s"
  "lastServerRequestAt (persistRuntime now f s) = lastServerRequestAt s"
  "clientSocket (persistRuntime now f s) = clientSocket s"
  "attached (persistRuntime now f s) = attached s"
  "sysRegistered (persistRuntime now f s) = sysRegistered s"
  "handshakeTimer (persistRuntime now f s) = handshakeTimer s"
  "connectTimer (persistRuntime now f s) = connectTimer s"
  by (simp_all add: persistRuntime_def)

lemma pushLog_frame [simp]:
  "connectionState (pushLog now l m s) = connectionState s"
  "lastError (pushLog now l m s) = lastError s"
  "autoEnabled (pushLog now l m s) = autoEnabled s"
  "autoOpts (pushLog now l m s) = autoOpts s"
  "autoTimer (pushLog now l m s) = autoTimer s"
  "autoBackoffMs (pushLog now l m s) = autoBackoffMs s"
  "autoMaxBackoffMs (pushLog now l m s) = autoMaxBackoffMs s"
  "handshakeOk (pushLog now l m s) = handshakeOk s"
  "transport (pushLog now l m s) = transport s"
  "lastConnectedAt (pushLog now l m s) = lastConnectedAt s"
  "lastServerRequestAt (pushLog now l m s) = lastServerRequestAt s"
  "clientSocket (pushLog now l m s) = clientSocket s"
  "attached (pushLog now l m s) = attached s"
  "sysRegistered (pushLog now l m s) = sysRegistered s"
  "handshakeTimer (pushLog now l m s) = handshakeTimer s"
  "connectTimer (pushLog now l m s) = connectTimer s"
  by (simp_all add: pushLog_def Let_def)

lemma pushLog_debugLog_nonempty [simp]: "debugLog (pushLog now l m s) \<noteq> []"
  by (simp add: pushLog_def Let_def)

lemma setState_frame [simp]:
  "connectionState (setState now st s) = st"
  "lastError (setState now st s) = lastError s"
  "autoEnabled (setState now st s) = autoEnabled s"
  "autoOpts (setState now st s) = autoOpts s"
  "autoTimer (setState now st s) = autoTimer s"
  "autoBackoffMs (setState now st s) = autoBackoffMs s"
  "autoMaxBackoffMs (setState now st s) = autoMaxBackoffMs s"
  "handshakeOk (setState now st s) = handshakeOk s"
  "transport (setState now st s) = transport s"
  "debugLog (setState now st s) = debugLog s"
  "lastConnectedAt (setState now st s) = lastConnectedAt s"
  "lastServerRequestAt (setState now st s) = lastServerRequestAt s"
  "clientSocket (setState now st s) = clientSocket s"
  "attached (setState now st s) = attached s"
  "sysRegistered (setState now st s) = sysRegistered s"
  "handshakeTimer (setState now st s) = handshakeTimer s"
  "connectTimer (setState now st s) = connectTimer s"
  by (simp_all add: setState_def)


subsection \<open>The backoff of the supervisor\<close>

lemma connect_unreachable:
  "connectionState s = Disconnected \<Longrightarrow>
   connectionState (connect unreachable_env now s) = Disconnected
   \<and> autoEnabled (connect unreachable_env now s) = autoEnabled s
   \<and> autoOpts (connect unreachable_env now s) = autoOpts s
   \<and> autoBackoffMs (connect unreachable_env now s) = autoBackoffMs s
   \<and> autoMaxBackoffMs (connect unreachable_env now s) = autoMaxBackoffMs s"
  by (simp add: connect_def unreachable_env_def shouldAssumeAnotherSandboxOwnsConnection_def
      clearHandshakeTimer_def Let_def)

lemma staleCheck_not_connected:
  "connectionState s \<noteq> Connected \<Longrightarrow> staleCheck env now s = s"
  by (simp add: staleCheck_def split: option.splits)

lemma autoTick_unreachable:
  assumes "auto_armed s"
  shows "autoTimer (autoTick unreachable_env now s) = Some (autoBackoffMs s)"
    and "autoBackoffMs (autoTick unreachable_env now s) = nextBackoff (autoBackoffMs s) (autoMaxBackoffMs s)"
    and "autoMaxBackoffMs (autoTick unreachable_env now s) = autoMaxBackoffMs s"
    and "auto_armed (autoTick unreachable_env now s)"
  using assms connect_unreachable [of s now]
  by (simp_all add: auto_armed_def autoTick_def staleCheck_not_connected scheduleAuto_def Let_def
      unreachable_env_def [THEN arg_cong, of cfg_autoConnect])

lemma tickDelays_unreachable:
  "auto_armed s \<Longrightarrow>
   tickDelays unreachable_env clock s =
     map Some (backoffSeq (length clock) (autoBackoffMs s) (autoMaxBackoffMs s))"
proof (induction clock arbitrary: s)
  case Nil
  then show ?case by simp
next
  case (Cons now later)
  from Cons.prems show ?case
    by (simp add: Let_def autoTick_unreachable Cons.IH [OF autoTick_unreachable(4) [OF Cons.prems]])
qed

lemma nextBackoff_bounds:
  "0 \<le> b \<Longrightarrow> b \<le> cap \<Longrightarrow> b \<le> nextBackoff b cap \<and> nextBackoff b cap \<le> cap"
  by (simp add: nextBackoff_def)

lemma backoffSeq_bounds:
  "0 \<le> b \<Longrightarrow> b \<le> cap \<Longrightarrow> \<forall>d \<in> set (backoffSeq n b cap). b \<le> d \<and> d \<le> cap"
proof (induction n arbitrary: b)
  case 0
  then show ?case by simp
next
  case (Suc n)
  have nb: "b \<le> nextBackoff b cap" "nextBackoff b cap \<le> cap"
    using nextBackoff_bounds [OF Suc.prems] by simp_all
  then have "0 \<le> nextBackoff b cap" using Suc.prems by simp
  from Suc.IH [OF this nb(2)] nb(1) Suc.prems show ?case by auto
qed

lemma backoffSeq_sorted:
  "0 \<le> b \<Longrightarrow> b \<le> cap \<Longrightarrow> sorted (backoffSeq n b cap)"
proof (induction n arbitrary: b)
  case 0
  then show ?case by simp
next
  case (Suc n)
  have nb: "b \<le> nextBackoff b cap" "nextBackoff b cap \<le> cap"
    using nextBackoff_bounds [OF Suc.prems] by simp_all
  then have nn: "0 \<le> nextBackoff b cap" using Suc.prems by simp
  from backoffSeq_bounds [OF nn nb(2), of n] nb(1) Suc.IH [OF nn nb(2)]
  show ?case by auto
qed

lemma start_armed:
  "auto_armed (startAutoConnect new_client)"
  "autoBackoffMs (startAutoConnect new_client) = 1500"
  "autoMaxBackoffMs (startAutoConnect new_client) = 30000"
  by (simp_all add: auto_armed_def startAutoConnect_def new_client_def scheduleAuto_def)

text \<open>
  Claim C5. A supervisor started on a fresh client whose every \<^verbatim>\<open>connect()\<close> fails
  arms, over six consecutive ticks, the delays 1500, 2400, 3840, 6144, 9830 and 15728
  ms; and over any number of ticks the delays it arms never decrease and never exceed
  30000 ms.
\<close>

theorem backoff_delays:
  "tickDelays unreachable_env [t1, t2, t3, t4, t5, t6] (startAutoConnect new_client)
     = [Some 1500, Some 2400, Some 3840, Some 6144, Some 9830, Some 15728]
   \<and> (\<exists>ds. tickDelays unreachable_env clock (startAutoConnect new_client) = map Some ds
            \<and> sorted ds \<and> (\<forall>d \<in> set ds. d \<le> 30000))"
proof
  show "tickDelays unreachable_env [t1, t2, t3, t4, t5, t6] (startAutoConnect new_client)
     = [Some 1500, Some 2400, Some 3840, Some 6144, Some 9830, Some 15728]"
    unfolding tickDelays_unreachable [OF start_armed(1)] start_armed(2,3)
    by (simp add: nextBackoff_def)
next
  let ?ds = "backoffSeq (length clock) 1500 30000"
  have "tickDelays unreachable_env clock (startAutoConnect new_client) = map Some ?ds"
    unfolding tickDelays_unreachable [OF start_armed(1)] start_armed(2,3) by (rule refl)
  moreover have "sorted ?ds" by (rule backoffSeq_sorted) simp_all
  moreover have "\<forall>d \<in> set ?ds. d \<le> 30000"
    using backoffSeq_bounds [of 1500 30000 "length clock"] by simp
  ultimately show "\<exists>ds. tickDelays unreachable_env clock (startAutoConnect new_client) = map Some ds
            \<and> sorted ds \<and> (\<forall>d \<in> set ds. d \<le> 30000)" by blast
qed

theorem backoff_delays_witness:
  "\<exists>ds. tickDelays unreachable_env [0, 1500, 3900, 7740, 13884, 23714, 39442, 64606, 94606]
           (startAutoConnect new_client) = map Some ds
        \<and> sorted ds \<and> (\<forall>d \<in> set ds. d \<le> 30000) \<and> 30000 \<in> set ds"
proof -
  let ?clock = "[0, 1500, 3900, 7740, 13884, 23714, 39442, 64606, 94606] :: int list"
  from backoff_delays [of 0 0 0 0 0 0 ?clock]
  obtain ds where ds: "tickDelays unreachable_env ?clock (startAutoConnect new_client) = map Some ds"
    "sorted ds" "\<forall>d \<in> set ds. d \<le> 30000" by blast
  have "tickDelays unreachable_env ?clock (startAutoConnect new_client)
          = map Some (backoffSeq 9 1500 30000)"
    unfolding tickDelays_unreachable [OF start_armed(1)] start_armed(2,3)
    by (simp add: eval_nat_numeral nextBackoff_def)
  with ds(1) have "ds = backoffSeq 9 1500 30000"
    by (simp add: map_eq_conv inj_map_eq_map)
  then have "30000 \<in> set ds" by (simp add: eval_nat_numeral nextBackoff_def)
  with ds show ?thesis by blast
qed


subsection \<open>Reaching the connected state\<close>


lemma disconnect_state [simp]: "connectionState (disconnect env now p s) = Disconnected"
  by (simp add: disconnect_def Let_def clearHandshakeTimer_def split: option.splits)






lemma scheduleAuto_state [simp]: "connectionState (scheduleAuto ms s) = connectionState s"
  by (simp add: scheduleAuto_def)


lemma sys_onConnected_state [simp]:
  "connectionState (sys_onConnected env now url s) = connectionState s"
  by (simp add: sys_onConnected_def Let_def startHandshakeWatchdog_def clearHandshakeTimer_def
      split: option.splits)

lemma ws_onopen_state [simp]: "connectionState (ws_onopen now w url s) = connectionState s"
  by (simp add: ws_onopen_def Let_def startHandshakeWatchdog_def clearHandshakeTimer_def)







subsection \<open>What a disconnect does to the last error\<close>

lemma disconnect_clears_lastError: "lastError (disconnect env now False s) = None"
  by (simp add: disconnect_def Let_def clearHandshakeTimer_def split: option.splits)

lemma disconnect_debugLog: "debugLog (disconnect env now p s) \<noteq> []"
  by (simp add: disconnect_def Let_def split: option.splits)

lemma user_disconnect_snapshot:
  "snap_lastError (getStatusSnapshot env' (disconnect env now False s)) = None
   \<and> snap_connectionState (getStatusSnapshot env' (disconnect env now False s)) = Disconnected"
  by (simp add: getStatusSnapshot_def Let_def disconnect_debugLog disconnect_clears_lastError)

lemma disconnect_preserves_lastError:
  "transport s \<noteq> SysWebSocket \<or> sysCloseThrows env = None \<Longrightarrow>
   lastError (disconnect env now True s) = lastError s"
  by (auto simp: disconnect_def Let_def clearHandshakeTimer_def split: option.splits)

lemma watchdog_keeps_cause:
  assumes "handshakeTimer s = Some url" and "\<not> handshakeOk s"
    and "transport s \<noteq> SysWebSocket \<or> sysCloseThrows env = None"
  shows "lastError (handshakeWatchdogFired env now s) = Some (HandshakeNotConfirmed url)"
    and "connectionState (handshakeWatchdogFired env now s) = Disconnected"
    and "snap_lastError (getStatusSnapshot env' (handshakeWatchdogFired env now s))
           = Some (HandshakeNotConfirmed url)"
proof -
  let ?s1 = "pushLog now Error ''handshake timeout''
               (s\<lparr>handshakeTimer := None, lastError := Some (HandshakeNotConfirmed url)\<rparr>)"
  have w: "handshakeWatchdogFired env now s = disconnect env now True ?s1"
    using assms(1,2) by (simp add: handshakeWatchdogFired_def Let_def)
  have "transport ?s1 \<noteq> SysWebSocket \<or> sysCloseThrows env = None" using assms(3) by simp
  from disconnect_preserves_lastError [OF this]
  show e: "lastError (handshakeWatchdogFired env now s) = Some (HandshakeNotConfirmed url)"
    by (simp add: w)
  show "connectionState (handshakeWatchdogFired env now s) = Disconnected" by (simp add: w)
  show "snap_lastError (getStatusSnapshot env' (handshakeWatchdogFired env now s))
           = Some (HandshakeNotConfirmed url)"
    using e by (simp add: getStatusSnapshot_def Let_def)
qed

text \<open>
  Claim C6, at the input where the code departs from it. The supervisor finds the
  connected client \<^const>\<open>quiet_client\<close> without traffic for 60.5 s. It stores the
  cause in \<^verbatim>\<open>#lastError\<close> and calls \<^verbatim>\<open>disconnect()\<close> without
  \<^verbatim>\<open>preserveLastError\<close>, which erases it: after the transition to \<open>Disconnected\<close>
  neither the field nor the status snapshot holds a last error, and none is there
  when the tick has ended. (The handshake watchdog keeps its cause, see
  \<open>watchdog_keeps_cause\<close>; a plain \<^verbatim>\<open>disconnect()\<close> clears the error, see
  \<open>user_disconnect_snapshot\<close>.)
\<close>

theorem stale_disconnect_loses_cause:
  "connectionState quiet_client = Connected
   \<and> lastServerRequestAt quiet_client = Some 1000
   \<and> autoTimer quiet_client = Some 10000
   \<and> connectionState (staleCheck sys_env 61500 quiet_client) = Disconnected
   \<and> lastError (staleCheck sys_env 61500 quiet_client) = None
   \<and> snap_lastError (getStatusSnapshot sys_env (staleCheck sys_env 61500 quiet_client)) = None
   \<and> snap_lastError
         (getStatusSnapshot sys_env (client_step sys_env 61500 AutoTimerFires quiet_client)) = None"
  by code_simp

section \<open>Properties of the bridge\<close>

subsection \<open>What the helpers leave alone\<close>

lemma settle_frame [simp]:
  "pending (settle p out s) = pending s"
  "calls (settle p out s) = calls s"
  "nextPromise (settle p out s) = nextPromise s"
  "callTimers (settle p out s) = callTimers s"
  "sendCallbacks (settle p out s) = sendCallbacks s"
  "handshaked (settle p out s) = handshaked s"
  "handshakeTimers (settle p out s) = handshakeTimers s"
  "readyState (settle p out s) = readyState s"
  "socket (settle p out s) = socket s"
  "closeCalls (settle p out s) = closeCalls s"
  "clientHello (settle p out s) = clientHello s"
  "serverClosed (settle p out s) = serverClosed s"
  by (simp_all add: settle_def)

lemma settle_settled:
  "settled (settle p out s) q =
     (if q = p \<and> settled s p = None then Some out else settled s q)"
  by (simp add: settle_def)

lemma settle_keeps: "settled s q = Some out \<Longrightarrow> settled (settle p out' s) q = Some out"
  by (auto simp: settle_settled)

lemma ws_close_frame [simp]:
  "pending (ws_close ws c r s) = pending s"
  "calls (ws_close ws c r s) = calls s"
  "nextPromise (ws_close ws c r s) = nextPromise s"
  "settled (ws_close ws c r s) = settled s"
  "callTimers (ws_close ws c r s) = callTimers s"
  "handshaked (ws_close ws c r s) = handshaked s"
  "handshakeTimers (ws_close ws c r s) = handshakeTimers s"
  "socket (ws_close ws c r s) = socket s"
  "closeCalls (ws_close ws c r s) = closeCalls s @ [(ws, c, r)]"
  "serverClosed (ws_close ws c r s) = serverClosed s"
  by (simp_all add: ws_close_def)

lemma ws_close_readyState:
  "readyState (ws_close ws c r s) w =
     (if w = ws \<and> readyState s ws = Some OPEN then Some CLOSING else readyState s w)"
  by (simp add: ws_close_def)

lemma alive_ws_close [simp]: "alive (ws_close ws c r s) w = alive s w"
  by (auto simp: alive_def ws_close_readyState)

lemma clearCallTimer_frame [simp]:
  "pending (clearCallTimer p s) = pending s"
  "calls (clearCallTimer p s) = calls s"
  "nextPromise (clearCallTimer p s) = nextPromise s"
  "settled (clearCallTimer p s) = settled s"
  "handshaked (clearCallTimer p s) = handshaked s"
  "readyState (clearCallTimer p s) = readyState s"
  "socket (clearCallTimer p s) = socket s"
  "closeCalls (clearCallTimer p s) = closeCalls s"
  by (simp_all add: clearCallTimer_def)

lemma rejectAndDelete_frame [simp]:
  "calls (rejectAndDelete err xs s) = calls s"
  "nextPromise (rejectAndDelete err xs s) = nextPromise s"
  "handshaked (rejectAndDelete err xs s) = handshaked s"
  "readyState (rejectAndDelete err xs s) = readyState s"
  "socket (rejectAndDelete err xs s) = socket s"
  "closeCalls (rejectAndDelete err xs s) = closeCalls s"
  by (induction err xs s rule: rejectAndDelete.induct) simp_all

lemma rejectAll_frame [simp]:
  "calls (rejectAll err xs s) = calls s"
  "nextPromise (rejectAll err xs s) = nextPromise s"
  "handshaked (rejectAll err xs s) = handshaked s"
  "readyState (rejectAll err xs s) = readyState s"
  "socket (rejectAll err xs s) = socket s"
  "closeCalls (rejectAll err xs s) = closeCalls s"
  "pending (rejectAll err xs s) = pending s"
  by (induction err xs s rule: rejectAll.induct) simp_all

lemma rejectAndDelete_settled:
  "settled (rejectAndDelete err xs s) q =
     (if settled s q = None \<and> q \<in> snd ` set xs then Some (Rejected err) else settled s q)"
  by (induction err xs s rule: rejectAndDelete.induct) (auto simp: settle_settled)

lemma rejectAll_settled:
  "settled (rejectAll err xs s) q =
     (if settled s q = None \<and> q \<in> snd ` set xs then Some (Rejected err) else settled s q)"
  by (induction err xs s rule: rejectAll.induct) (auto simp: settle_settled)

lemma rejectAndDelete_pending:
  "fst ` set (pending s) \<subseteq> fst ` set xs \<Longrightarrow> pending (rejectAndDelete err xs s) = []"
proof (induction err xs s rule: rejectAndDelete.induct)
  case (1 err s)
  then show ?case by simp
next
  case (2 err uuid p rest s)
  let ?s' = "(settle p (Rejected err) (clearCallTimer p s))
          \<lparr>pending := AList.delete uuid (pending (settle p (Rejected err) (clearCallTimer p s)))\<rparr>"
  have "fst ` set (pending ?s') \<subseteq> fst ` set rest"
    using "2.prems" by (auto simp: AList.delete_eq)
  from "2.IH" [OF this] show ?case by simp
qed

lemma onClose_pending: "pending (onClose ws s) = []"
  by (simp add: onClose_def Let_def rejectAndDelete_pending stopKeepAlive_def)

subsection \<open>The invariant\<close>

lemma map_of_delete: "map_of (AList.delete k xs) = (map_of xs)(k := None)"
  by (rule AList.delete_conv')

lemma map_of_update: "map_of (AList.update k v xs) = (map_of xs)(k \<mapsto> v)"
  by (rule AList.update_conv')

lemma inv_pending:
  "bridge_inv s \<Longrightarrow> map_of (pending s) i = Some p \<Longrightarrow>
     (\<exists>c. calls s p = Some c \<and> call_id c = i) \<and> settled s p = None"
  unfolding bridge_inv_def by blast

lemma inv_calls: "bridge_inv s \<Longrightarrow> calls s p = Some c \<Longrightarrow> p < nextPromise s"
  unfolding bridge_inv_def by blast

lemma inv_settled: "bridge_inv s \<Longrightarrow> settled s p = Some out \<Longrightarrow> p < nextPromise s"
  unfolding bridge_inv_def by blast

lemma inv_live:
  "bridge_inv s \<Longrightarrow> ws \<in> handshaked s \<Longrightarrow> readyState s ws = Some OPEN \<Longrightarrow> socket s = Some ws"
  unfolding bridge_inv_def by blast

lemma inv_socket: "bridge_inv s \<Longrightarrow> socket s = Some ws \<Longrightarrow> ws \<in> handshaked s \<and> alive s ws"
  unfolding bridge_inv_def by blast

lemma inv_distinct: "bridge_inv s \<Longrightarrow> distinct (map fst (pending s))"
  unfolding bridge_inv_def by blast

lemma inv_entry:
  "bridge_inv s \<Longrightarrow> (i, p) \<in> set (pending s) \<Longrightarrow>
     (\<exists>c. calls s p = Some c \<and> call_id c = i) \<and> settled s p = None"
  using inv_pending [of s i p] inv_distinct [of s] by simp

lemma invI:
  assumes "distinct (map fst (pending s))"
    and "\<And>i p. map_of (pending s) i = Some p \<Longrightarrow>
             (\<exists>c. calls s p = Some c \<and> call_id c = i) \<and> settled s p = None"
    and "\<And>p c. calls s p = Some c \<Longrightarrow> p < nextPromise s"
    and "\<And>p out. settled s p = Some out \<Longrightarrow> p < nextPromise s"
    and "\<And>ws. ws \<in> handshaked s \<Longrightarrow> readyState s ws = Some OPEN \<Longrightarrow> socket s = Some ws"
    and "\<And>ws. socket s = Some ws \<Longrightarrow> ws \<in> handshaked s \<and> alive s ws"
  shows "bridge_inv s"
  unfolding bridge_inv_def using assms by blast

lemma inv_new: "bridge_inv new_bridge"
  by (rule invI) (simp_all add: new_bridge_def alive_def)

text \<open>A change that touches neither promises nor sockets.\<close>

lemma inv_same:
  assumes "bridge_inv s"
    and "pending s' = pending s" "calls s' = calls s" "settled s' = settled s"
    and "nextPromise s' = nextPromise s"
    and "handshaked s' = handshaked s" "readyState s' = readyState s" "socket s' = socket s"
  shows "bridge_inv s'"
  using assms(1) unfolding bridge_inv_def alive_def assms(2-) .

lemma inv_call:
  assumes inv: "bridge_inv s" and "call uuid method t s = Inr s'"
  shows "bridge_inv s'"
proof -
  let ?n = "nextPromise s"
  from assms(2) obtain ws where ws: "socket s = Some ws" "readyState s ws = Some OPEN"
    and s': "s' = s\<lparr>nextPromise := Suc ?n,
                    calls := (calls s)(?n \<mapsto> \<lparr>call_id = uuid, call_method = method,
                                               call_timeoutMs = t, call_socket = ws\<rparr>),
                    callTimers := insert ?n (callTimers s),
                    pending := AList.update uuid ?n (pending s),
                    sent := sent s @ [(ws, uuid, method)],
                    sendCallbacks := insert ?n (sendCallbacks s)\<rparr>"
    by (auto simp: call_def Let_def split: option.splits if_splits)
  have un: "settled s ?n = None"
    using inv_settled [OF inv, of ?n] by (cases "settled s ?n") auto
  have p': "pending s' = AList.update uuid ?n (pending s)" by (simp add: s')
  have c': "calls s' = (calls s)(?n \<mapsto> \<lparr>call_id = uuid, call_method = method,
                                               call_timeoutMs = t, call_socket = ws\<rparr>)"
    by (simp add: s')
  have r': "settled s' = settled s" "nextPromise s' = Suc ?n" "handshaked s' = handshaked s"
    "readyState s' = readyState s" "socket s' = socket s" by (simp_all add: s')
  show ?thesis
  proof (rule invI)
    show "distinct (map fst (pending s'))"
      using inv_distinct [OF inv] by (simp add: p' AList.distinct_update)
  next
    fix i p assume a: "map_of (pending s') i = Some p"
    show "(\<exists>c. calls s' p = Some c \<and> call_id c = i) \<and> settled s' p = None"
    proof (cases "i = uuid")
      case True
      with a have "p = ?n" by (simp add: p' map_of_update)
      with True un show ?thesis by (simp add: c' r')
    next
      case False
      with a have b: "map_of (pending s) i = Some p" by (simp add: p' map_of_update)
      from inv_pending [OF inv b] obtain c where c: "calls s p = Some c" "call_id c = i"
        "settled s p = None" by blast
      from inv_calls [OF inv c(1)] have "p \<noteq> ?n" by simp
      with c show ?thesis by (simp add: c' r')
    qed
  next
    fix p c assume "calls s' p = Some c"
    then show "p < nextPromise s'"
      using inv_calls [OF inv, of p] by (cases "p = ?n") (simp_all add: c' r' less_Suc_eq)
  next
    fix p out assume "settled s' p = Some out"
    then show "p < nextPromise s'"
      using inv_settled [OF inv, of p out] by (simp add: r' less_Suc_eq)
  next
    fix w assume "w \<in> handshaked s'" "readyState s' w = Some OPEN"
    then show "socket s' = Some w" using inv_live [OF inv, of w] by (simp add: r')
  next
    fix w assume "socket s' = Some w"
    then show "w \<in> handshaked s' \<and> alive s' w"
      using inv_socket [OF inv, of w] by (simp add: r' alive_def)
  qed
qed

text \<open>Settling a promise and dropping the entry of its id.\<close>

lemma inv_settle_delete:
  assumes inv: "bridge_inv s" and c: "calls s p = Some c"
    and p': "pending s' = AList.delete (call_id c) (pending s)"
    and t': "settled s' = settled (settle p out s)"
    and r': "calls s' = calls s" "nextPromise s' = nextPromise s"
      "handshaked s' = handshaked s" "readyState s' = readyState s" "socket s' = socket s"
  shows "bridge_inv s'"
proof (rule invI)
  show "distinct (map fst (pending s'))"
    using inv_distinct [OF inv] by (simp add: p' AList.distinct_delete)
next
  fix i q assume a: "map_of (pending s') i = Some q"
  then have i: "i \<noteq> call_id c" and b: "map_of (pending s) i = Some q"
    by (auto simp: p' map_of_delete split: if_splits)
  from inv_pending [OF inv b] obtain c' where c': "calls s q = Some c'" "call_id c' = i"
    "settled s q = None" by blast
  with i c have "q \<noteq> p" by auto
  with c' show "(\<exists>c. calls s' q = Some c \<and> call_id c = i) \<and> settled s' q = None"
    by (simp add: r' t' settle_settled)
next
  fix q c' assume "calls s' q = Some c'"
  then show "q < nextPromise s'" using inv_calls [OF inv, of q] by (simp add: r')
next
  fix q out' assume "settled s' q = Some out'"
  then show "q < nextPromise s'"
    using inv_settled [OF inv, of q out'] inv_calls [OF inv c]
    by (cases "q = p") (simp_all add: r' t' settle_settled)
next
  fix w assume "w \<in> handshaked s'" "readyState s' w = Some OPEN"
  then show "socket s' = Some w" using inv_live [OF inv, of w] by (simp add: r')
next
  fix w assume "socket s' = Some w"
  then show "w \<in> handshaked s' \<and> alive s' w"
    using inv_socket [OF inv, of w] by (simp add: r' alive_def)
qed

lemma inv_callTimerFired: "bridge_inv s \<Longrightarrow> bridge_inv (callTimerFired p s)"
proof (cases "p \<in> callTimers s")
  case False
  assume "bridge_inv s"
  with False show ?thesis by (simp add: callTimerFired_def)
next
  case True
  assume inv: "bridge_inv s"
  show ?thesis
  proof (cases "calls s p")
    case None
    with inv show ?thesis by (simp add: callTimerFired_def)
  next
    case (Some c)
    let ?s0 = "s\<lparr>callTimers := callTimers s - {p}, pending := AList.delete (call_id c) (pending s)\<rparr>"
    let ?out = "Rejected (CallTimeout (call_method c))"
    have "callTimerFired p s = settle p ?out ?s0"
      using True Some by (simp add: callTimerFired_def)
    moreover have "bridge_inv (settle p ?out ?s0)"
      by (rule inv_settle_delete [OF inv Some, where out = ?out]) (simp_all add: settle_def)
    ultimately show ?thesis by simp
  qed
qed

lemma inv_sendCallback: "bridge_inv s \<Longrightarrow> bridge_inv (sendCallback p err s)"
proof -
  assume inv: "bridge_inv s"
  let ?s0 = "s\<lparr>sendCallbacks := sendCallbacks s - {p}\<rparr>"
  have inv0: "bridge_inv ?s0" by (rule inv_same [OF inv]) simp_all
  show ?thesis
  proof (cases "p \<in> sendCallbacks s \<and> err \<noteq> None \<and> calls s p \<noteq> None")
    case False
    with inv inv0 show ?thesis by (auto simp: sendCallback_def Let_def split: option.splits)
  next
    case True
    then obtain e c where e: "err = Some e" and c: "calls s p = Some c" by auto
    let ?out = "Rejected (SendFailure e)"
    let ?s1 = "(clearCallTimer p ?s0)\<lparr>pending := AList.delete (call_id c) (pending ?s0)\<rparr>"
    have "sendCallback p err s = settle p ?out ?s1"
      using True e c by (simp add: sendCallback_def Let_def)
    moreover have "bridge_inv (settle p ?out ?s1)"
      by (rule inv_settle_delete [OF inv c, where out = ?out]) (simp_all add: settle_def)
    ultimately show ?thesis by simp
  qed
qed

lemma inv_handleResponse: "bridge_inv s \<Longrightarrow> bridge_inv (handleResponse msg s)"
proof (cases "map_of (pending s) (resp_id msg)")
  case None
  assume "bridge_inv s"
  with None show ?thesis by (simp add: handleResponse_def)
next
  case (Some p)
  assume inv: "bridge_inv s"
  from inv_pending [OF inv Some] obtain c where c: "calls s p = Some c" "call_id c = resp_id msg"
    by blast
  let ?s1 = "(clearCallTimer p s)\<lparr>pending := AList.delete (resp_id msg) (pending s)\<rparr>"
  have "\<exists>out. handleResponse msg s = settle p out ?s1"
    using Some by (auto simp: handleResponse_def Let_def split: option.splits)
  then obtain out where h: "handleResponse msg s = settle p out ?s1" by blast
  have "bridge_inv (settle p out ?s1)"
    by (rule inv_settle_delete [OF inv c(1), where out = out]) (simp_all add: settle_def c(2))
  with h show ?thesis by simp
qed

lemma inv_keepAliveTick: "bridge_inv s \<Longrightarrow> bridge_inv (keepAliveTick uuid s)"
proof -
  assume inv: "bridge_inv s"
  let ?s0 = "s\<lparr>keepAliveInFlight := True\<rparr>"
  have inv0: "bridge_inv ?s0" by (rule inv_same [OF inv]) simp_all
  have inv1: "bridge_inv (s\<lparr>keepAliveInFlight := False\<rparr>)" by (rule inv_same [OF inv]) simp_all
  show ?thesis
  proof (cases "call uuid ''ping'' 5000 ?s0")
    case (Inl e)
    with inv inv1 show ?thesis by (simp add: keepAliveTick_def split: option.splits)
  next
    case (Inr s')
    from inv_call [OF inv0 Inr] have "bridge_inv s'" .
    then have "bridge_inv (s'\<lparr>keepAlivePings := insert (nextPromise s) (keepAlivePings s')\<rparr>)"
      by (rule inv_same) simp_all
    with inv Inr show ?thesis by (simp add: keepAliveTick_def split: option.splits)
  qed
qed

lemma inv_handleConnection:
  assumes inv: "bridge_inv s" and new: "readyState s ws = None"
  shows "bridge_inv (handleConnection ws addr s)"
proof (rule invI)
  show "distinct (map fst (pending (handleConnection ws addr s)))"
    using inv_distinct [OF inv] by (simp add: handleConnection_def)
next
  fix i p assume "map_of (pending (handleConnection ws addr s)) i = Some p"
  then show "(\<exists>c. calls (handleConnection ws addr s) p = Some c \<and> call_id c = i)
      \<and> settled (handleConnection ws addr s) p = None"
    using inv_pending [OF inv, of i p] by (simp add: handleConnection_def)
next
  fix p c assume "calls (handleConnection ws addr s) p = Some c"
  then show "p < nextPromise (handleConnection ws addr s)"
    using inv_calls [OF inv, of p c] by (simp add: handleConnection_def)
next
  fix p out assume "settled (handleConnection ws addr s) p = Some out"
  then show "p < nextPromise (handleConnection ws addr s)"
    using inv_settled [OF inv, of p out] by (simp add: handleConnection_def)
next
  fix w assume "w \<in> handshaked (handleConnection ws addr s)"
    "readyState (handleConnection ws addr s) w = Some OPEN"
  then show "socket (handleConnection ws addr s) = Some w"
    using inv_live [OF inv, of w] by (simp add: handleConnection_def split: if_splits)
next
  fix w assume a: "socket (handleConnection ws addr s) = Some w"
  then have b: "socket s = Some w" by (simp add: handleConnection_def)
  from inv_socket [OF inv b] new have "w \<noteq> ws" by (auto simp: alive_def)
  with inv_socket [OF inv b]
  show "w \<in> handshaked (handleConnection ws addr s) \<and> alive (handleConnection ws addr s) w"
    by (simp add: handleConnection_def alive_def)
qed

text \<open>Asking a socket to close keeps the invariant.\<close>

lemma inv_ws_close: "bridge_inv s \<Longrightarrow> bridge_inv (ws_close ws c r s)"
proof (rule invI)
  assume inv: "bridge_inv s"
  show "distinct (map fst (pending (ws_close ws c r s)))"
    using inv_distinct [OF inv] by simp
  { fix i p assume "map_of (pending (ws_close ws c r s)) i = Some p"
    then show "(\<exists>ci. calls (ws_close ws c r s) p = Some ci \<and> call_id ci = i)
        \<and> settled (ws_close ws c r s) p = None"
      using inv_pending [OF inv, of i p] by simp }
  { fix p ci assume "calls (ws_close ws c r s) p = Some ci"
    then show "p < nextPromise (ws_close ws c r s)" using inv_calls [OF inv, of p ci] by simp }
  { fix p out assume "settled (ws_close ws c r s) p = Some out"
    then show "p < nextPromise (ws_close ws c r s)" using inv_settled [OF inv, of p out] by simp }
  { fix w assume "w \<in> handshaked (ws_close ws c r s)" "readyState (ws_close ws c r s) w = Some OPEN"
    then show "socket (ws_close ws c r s) = Some w"
      using inv_live [OF inv, of w] by (simp add: ws_close_readyState split: if_splits) }
  { fix w assume "socket (ws_close ws c r s) = Some w"
    then show "w \<in> handshaked (ws_close ws c r s) \<and> alive (ws_close ws c r s) w"
      using inv_socket [OF inv, of w] by simp }
qed

lemma inv_handshakeTimerFired: "bridge_inv s \<Longrightarrow> bridge_inv (handshakeTimerFired ws s)"
proof -
  assume inv: "bridge_inv s"
  let ?s0 = "s\<lparr>handshakeTimers := (handshakeTimers s)(ws := None)\<rparr>"
  have inv0: "bridge_inv ?s0" by (rule inv_same [OF inv]) simp_all
  from inv inv0 inv_ws_close [OF inv0] show ?thesis
    by (simp add: handshakeTimerFired_def Let_def split: option.splits)
qed

lemma onMessage_hello:
  "ws \<notin> handshaked s \<Longrightarrow> parseHello j = Some hello \<Longrightarrow>
   onMessage now ws (Some j) s = acceptHello now ws hello s"
  by (simp add: onMessage_def)

lemma acceptHello_fields:
  "pending (acceptHello now ws hello s) = pending s"
  "calls (acceptHello now ws hello s) = calls s"
  "settled (acceptHello now ws hello s) = settled s"
  "nextPromise (acceptHello now ws hello s) = nextPromise s"
  "handshaked (acceptHello now ws hello s) = insert ws (handshaked s)"
  "socket (acceptHello now ws hello s) = Some ws"
  "clientHello (acceptHello now ws hello s) = Some hello"
  "closeCalls (acceptHello now ws hello s) =
     (case socket s of None \<Rightarrow> closeCalls s
      | Some old \<Rightarrow> closeCalls s @ [(old, 4000, ''Replaced by new connection'')])"
  "readyState (acceptHello now ws hello s) w =
     (if socket s = Some w \<and> readyState s w = Some OPEN then Some CLOSING else readyState s w)"
  by (auto simp: acceptHello_def Let_def stopKeepAlive_def startKeepAlive_def ws_close_readyState
      split: option.splits)

lemma inv_acceptHello:
  assumes inv: "bridge_inv s" and al: "alive s ws" and nh: "ws \<notin> handshaked s"
  shows "bridge_inv (acceptHello now ws hello s)"
proof (rule invI)
  show "distinct (map fst (pending (acceptHello now ws hello s)))"
    using inv_distinct [OF inv] by (simp add: acceptHello_fields)
next
  fix i p assume "map_of (pending (acceptHello now ws hello s)) i = Some p"
  then show "(\<exists>c. calls (acceptHello now ws hello s) p = Some c \<and> call_id c = i)
      \<and> settled (acceptHello now ws hello s) p = None"
    using inv_pending [OF inv, of i p] by (simp add: acceptHello_fields)
next
  fix p c assume "calls (acceptHello now ws hello s) p = Some c"
  then show "p < nextPromise (acceptHello now ws hello s)"
    using inv_calls [OF inv, of p c] by (simp add: acceptHello_fields)
next
  fix p out assume "settled (acceptHello now ws hello s) p = Some out"
  then show "p < nextPromise (acceptHello now ws hello s)"
    using inv_settled [OF inv, of p out] by (simp add: acceptHello_fields)
next
  fix w assume a: "w \<in> handshaked (acceptHello now ws hello s)"
    "readyState (acceptHello now ws hello s) w = Some OPEN"
  show "socket (acceptHello now ws hello s) = Some w"
  proof (cases "w = ws")
    case True
    then show ?thesis by (simp add: acceptHello_fields)
  next
    case False
    with a have h: "w \<in> handshaked s" and r: "readyState s w = Some OPEN"
      and n: "\<not> (socket s = Some w)"
      by (auto simp: acceptHello_fields split: if_splits)
    from inv_live [OF inv h r] n show ?thesis by simp
  qed
next
  fix w assume "socket (acceptHello now ws hello s) = Some w"
  then have "w = ws" by (simp add: acceptHello_fields)
  with al show "w \<in> handshaked (acceptHello now ws hello s) \<and> alive (acceptHello now ws hello s) w"
    by (auto simp: acceptHello_fields alive_def)
qed

lemma inv_onMessage:
  assumes inv: "bridge_inv s" and al: "alive s ws"
  shows "bridge_inv (onMessage now ws parsed s)"
proof (cases parsed)
  case None
  with inv show ?thesis by (simp add: onMessage_def)
next
  case (Some j)
  show ?thesis
  proof (cases "ws \<in> handshaked s")
    case True
    with Some inv inv_handleResponse [OF inv] show ?thesis
      by (simp add: onMessage_def split: option.splits)
  next
    case False
    show ?thesis
    proof (cases "parseHello j")
      case None
      with Some False inv_ws_close [OF inv] show ?thesis by (simp add: onMessage_def)
    next
      case (Some hello)
      with \<open>parsed = Some j\<close> False inv_acceptHello [OF inv al False] show ?thesis
        by (simp add: onMessage_hello)
    qed
  qed
qed

lemma inv_rejectAndDelete_settled:
  "settled (rejectAndDelete err xs s) p = Some out \<Longrightarrow>
   settled s p = Some out \<or> p \<in> snd ` set xs"
  by (simp add: rejectAndDelete_settled split: if_splits)

lemma onClose_fields:
  "calls (onClose ws s) = calls s"
  "nextPromise (onClose ws s) = nextPromise s"
  "handshaked (onClose ws s) = handshaked s"
  "socket (onClose ws s) = (if socket s = Some ws then None else socket s)"
  "readyState (onClose ws s) = (readyState s)(ws \<mapsto> CLOSED)"
  "closeCalls (onClose ws s) = closeCalls s"
  "settled (onClose ws s) p =
     (if settled s p = None \<and> p \<in> snd ` set (pending s) then Some (Rejected BridgeDisconnected)
      else settled s p)"
  by (simp_all add: onClose_def Let_def stopKeepAlive_def rejectAndDelete_settled)

lemma inv_onClose:
  assumes inv: "bridge_inv s"
  shows "bridge_inv (onClose ws s)"
proof (rule invI)
  show "distinct (map fst (pending (onClose ws s)))" by (simp add: onClose_pending)
next
  fix i p assume "map_of (pending (onClose ws s)) i = Some p"
  then show "(\<exists>c. calls (onClose ws s) p = Some c \<and> call_id c = i) \<and> settled (onClose ws s) p = None"
    by (simp add: onClose_pending)
next
  fix p c assume "calls (onClose ws s) p = Some c"
  then show "p < nextPromise (onClose ws s)"
    using inv_calls [OF inv, of p c] by (simp add: onClose_fields)
next
  fix p out assume "settled (onClose ws s) p = Some out"
  then have "(\<exists>out'. settled s p = Some out') \<or> p \<in> snd ` set (pending s)"
    by (auto simp: onClose_fields split: if_splits)
  then show "p < nextPromise (onClose ws s)"
  proof
    assume "\<exists>out'. settled s p = Some out'"
    then show ?thesis using inv_settled [OF inv, of p] by (auto simp: onClose_fields)
  next
    assume "p \<in> snd ` set (pending s)"
    then obtain i where "(i, p) \<in> set (pending s)" by force
    from inv_entry [OF inv this] inv_calls [OF inv, of p]
    show ?thesis by (auto simp: onClose_fields)
  qed
next
  fix w assume "w \<in> handshaked (onClose ws s)" "readyState (onClose ws s) w = Some OPEN"
  then show "socket (onClose ws s) = Some w"
    using inv_live [OF inv, of w] by (auto simp: onClose_fields split: if_splits)
next
  fix w assume "socket (onClose ws s) = Some w"
  then show "w \<in> handshaked (onClose ws s) \<and> alive (onClose ws s) w"
    using inv_socket [OF inv, of w] by (auto simp: onClose_fields alive_def split: if_splits)
qed

lemma close_fields:
  "pending (close s) = []"
  "calls (close s) = calls s"
  "nextPromise (close s) = nextPromise s"
  "handshaked (close s) = handshaked s"
  "socket (close s) = None"
  "readyState (close s) w =
     (if socket s = Some w \<and> readyState s w = Some OPEN then Some CLOSING else readyState s w)"
  "settled (close s) p =
     (if settled s p = None \<and> p \<in> snd ` set (pending s) then Some (Rejected BridgeClosed)
      else settled s p)"
  by (auto simp: close_def Let_def stopKeepAlive_def rejectAll_settled ws_close_readyState
      split: option.splits)

lemma inv_close:
  assumes inv: "bridge_inv s"
  shows "bridge_inv (close s)"
proof (rule invI)
  show "distinct (map fst (pending (close s)))" by (simp add: close_fields)
next
  fix i p assume "map_of (pending (close s)) i = Some p"
  then show "(\<exists>c. calls (close s) p = Some c \<and> call_id c = i) \<and> settled (close s) p = None"
    by (simp add: close_fields)
next
  fix p c assume "calls (close s) p = Some c"
  then show "p < nextPromise (close s)"
    using inv_calls [OF inv, of p c] by (simp add: close_fields)
next
  fix p out assume "settled (close s) p = Some out"
  then have "(\<exists>out'. settled s p = Some out') \<or> p \<in> snd ` set (pending s)"
    by (auto simp: close_fields split: if_splits)
  then show "p < nextPromise (close s)"
  proof
    assume "\<exists>out'. settled s p = Some out'"
    then show ?thesis using inv_settled [OF inv, of p] by (auto simp: close_fields)
  next
    assume "p \<in> snd ` set (pending s)"
    then obtain i where "(i, p) \<in> set (pending s)" by force
    from inv_entry [OF inv this] inv_calls [OF inv, of p]
    show ?thesis by (auto simp: close_fields)
  qed
next
  fix w assume "w \<in> handshaked (close s)" "readyState (close s) w = Some OPEN"
  then show "socket (close s) = Some w"
    using inv_live [OF inv, of w] by (auto simp: close_fields split: if_splits)
next
  fix w assume "socket (close s) = Some w"
  then show "w \<in> handshaked (close s) \<and> alive (close s) w" by (simp add: close_fields)
qed

lemma inv_step: "bridge_inv s \<Longrightarrow> bridge_inv (bridge_step now e s)"
proof (cases e)
  case (Connection ws addr)
  assume "bridge_inv s"
  with Connection inv_handleConnection show ?thesis by simp
next
  case (Call uuid m t)
  assume "bridge_inv s"
  with Call inv_call show ?thesis by (cases "call uuid m t s") auto
qed (simp_all add: inv_handshakeTimerFired inv_onMessage inv_onClose inv_callTimerFired
    inv_sendCallback inv_keepAliveTick inv_close)

lemma inv_run: "bridge_inv s \<Longrightarrow> bridge_inv (bridge_run evs s)"
  by (induction evs arbitrary: s) (auto simp: inv_step)

lemma inv_reachable: "bridge_inv (bridge_run evs new_bridge)"
  by (rule inv_run [OF inv_new])

subsection \<open>How promises settle\<close>

lemma step_keeps_outcome:
  "settled s p = Some out \<Longrightarrow> settled (bridge_step now e s) p = Some out"
proof (cases e)
  case (Frame ws parsed)
  assume "settled s p = Some out"
  with Frame show ?thesis
    by (auto simp: onMessage_def handleResponse_def Let_def acceptHello_fields settle_settled
        split: option.splits)
next
  case (Call uuid m t)
  assume "settled s p = Some out"
  with Call show ?thesis
    by (auto simp: call_def Let_def split: option.splits)
next
  case (KeepAliveFires uuid)
  assume "settled s p = Some out"
  with KeepAliveFires show ?thesis
    by (auto simp: keepAliveTick_def call_def Let_def split: option.splits)
next
  case (SendReports q err)
  assume "settled s p = Some out"
  with SendReports show ?thesis
    by (auto simp: sendCallback_def Let_def settle_settled split: option.splits)
qed (auto simp: handleConnection_def handshakeTimerFired_def Let_def onClose_fields close_fields
      callTimerFired_def settle_settled split: option.splits)

lemma run_keeps_outcome:
  "settled s p = Some out \<Longrightarrow> settled (bridge_run evs s) p = Some out"
  by (induction evs arbitrary: s) (auto simp: step_keeps_outcome)

lemma response_is_no_hello: "parseResponse j = Some msg \<Longrightarrow> parseHello j = None"
  by (cases j) (auto split: if_splits)

lemma step_settles_for_own_event:
  assumes inv: "bridge_inv s" and un: "settled s p = None"
    and st: "settled (bridge_step now e s) p \<noteq> None"
  shows "\<exists>c. calls s p = Some c
           \<and> (reaction_to c p e \<or> (\<exists>ws. e = SocketClosed ws \<and> ws \<noteq> call_socket c \<and> alive s ws))"
proof (cases e)
  case (Connection ws addr)
  with un st show ?thesis by (simp add: handleConnection_def split: if_splits)
next
  case (HandshakeTimeout ws)
  with un st show ?thesis
    by (simp add: handshakeTimerFired_def Let_def split: option.splits if_splits)
next
  case (Frame ws parsed)
  show ?thesis
  proof (cases "alive s ws \<and> ws \<in> handshaked s \<and> parsed \<noteq> None")
    case False
    with Frame un st show ?thesis
      by (auto simp: onMessage_def acceptHello_fields split: option.splits if_splits)
  next
    case True
    then obtain j where j: "parsed = Some j" by auto
    show ?thesis
    proof (cases "parseResponse j")
      case None
      with Frame True j un st show ?thesis by (simp add: onMessage_def)
    next
      case (Some msg)
      with Frame True j have step: "bridge_step now e s = handleResponse msg s"
        by (simp add: onMessage_def)
      show ?thesis
      proof (cases "map_of (pending s) (resp_id msg)")
        case None
        with step un st show ?thesis by (simp add: handleResponse_def)
      next
        case (Some q)
        with step un st have "q = p"
          by (auto simp: handleResponse_def Let_def settle_settled split: option.splits if_splits)
        with inv_pending [OF inv Some] obtain c where "calls s p = Some c" "call_id c = resp_id msg"
          by blast
        with Frame j \<open>parseResponse j = Some msg\<close> show ?thesis by simp
      qed
    qed
  qed
next
  case (SocketClosed ws)
  with un st have al: "alive s ws" by (auto split: if_splits)
  with SocketClosed un st have "p \<in> snd ` set (pending s)"
    by (auto simp: onClose_fields split: if_splits)
  then obtain i where "(i, p) \<in> set (pending s)" by force
  from inv_entry [OF inv this] obtain c where "calls s p = Some c" by blast
  with SocketClosed al show ?thesis by (cases "ws = call_socket c") simp_all
next
  case (Call uuid m t)
  with un st show ?thesis by (auto simp: call_def Let_def split: option.splits if_splits)
next
  case (CallTimerFires q)
  with un st show ?thesis
    by (auto simp: callTimerFired_def settle_settled split: option.splits if_splits)
next
  case (SendReports q err)
  with un st show ?thesis
    by (cases err) (auto simp: sendCallback_def Let_def settle_settled split: option.splits if_splits)
next
  case (KeepAliveFires uuid)
  with un st show ?thesis
    by (auto simp: keepAliveTick_def call_def Let_def split: option.splits if_splits)
next
  case Close
  with un st have "p \<in> snd ` set (pending s)"
    by (auto simp: close_fields split: if_splits)
  then obtain i where "(i, p) \<in> set (pending s)" by force
  from inv_entry [OF inv this] Close show ?thesis by auto
qed

lemma unknown_response_ignored:
  assumes "parseResponse j = Some msg" and "map_of (pending s) (resp_id msg) = None"
  shows "pending (bridge_step now (Frame ws (Some j)) s) = pending s"
    and "settled (bridge_step now (Frame ws (Some j)) s) = settled s"
    and "callTimers (bridge_step now (Frame ws (Some j)) s) = callTimers s"
    and "ws \<in> handshaked s \<Longrightarrow> bridge_step now (Frame ws (Some j)) s = s"
  using assms response_is_no_hello [OF assms(1)]
  by (simp_all add: onMessage_def handleResponse_def)

subsection \<open>Sockets that were replaced\<close>


lemma callTimerFired_sockets:
  "handshaked (callTimerFired p s) = handshaked s"
  "readyState (callTimerFired p s) = readyState s"
  "socket (callTimerFired p s) = socket s"
  by (simp_all add: callTimerFired_def split: option.splits)

lemma sendCallback_sockets:
  "handshaked (sendCallback p err s) = handshaked s"
  "readyState (sendCallback p err s) = readyState s"
  "socket (sendCallback p err s) = socket s"
  by (simp_all add: sendCallback_def Let_def split: option.splits)

lemma handleResponse_sockets:
  "handshaked (handleResponse msg s) = handshaked s"
  "readyState (handleResponse msg s) = readyState s"
  "socket (handleResponse msg s) = socket s"
  by (simp_all add: handleResponse_def Let_def split: option.splits)

lemma call_sockets:
  "call uuid m t s = Inr s' \<Longrightarrow>
   handshaked s' = handshaked s \<and> readyState s' = readyState s \<and> socket s' = socket s"
  by (auto simp: call_def Let_def split: option.splits if_splits)

lemma keepAliveTick_sockets:
  "handshaked (keepAliveTick uuid s) = handshaked s"
  "readyState (keepAliveTick uuid s) = readyState s"
  "socket (keepAliveTick uuid s) = socket s"
  by (simp_all add: keepAliveTick_def call_def Let_def split: option.splits)

lemma handshakeTimerFired_sockets:
  "handshaked (handshakeTimerFired ws s) = handshaked s"
  "socket (handshakeTimerFired ws s) = socket s"
  "readyState s w \<noteq> Some OPEN \<Longrightarrow> readyState (handshakeTimerFired ws s) w = readyState s w"
  by (auto simp: handshakeTimerFired_def Let_def ws_close_readyState split: option.splits)




subsection \<open>Sockets that have not shaken hands\<close>

lemma no_hello_step:
  assumes nh: "ws \<notin> handshaked s" and e: "\<not> hello_on ws e"
  shows "ws \<notin> handshaked (bridge_step now e s)"
proof (cases e)
  case (Connection w addr)
  with nh show ?thesis by (simp add: handleConnection_def)
next
  case (HandshakeTimeout w)
  with nh show ?thesis by (simp add: handshakeTimerFired_sockets)
next
  case (Frame w parsed)
  show ?thesis
  proof (cases parsed)
    case None
    with Frame nh show ?thesis by (simp add: onMessage_def)
  next
    case (Some j)
    show ?thesis
    proof (cases "w \<in> handshaked s")
      case True
      with Frame Some nh show ?thesis
        by (simp add: onMessage_def handleResponse_sockets split: option.splits)
    next
      case False
      show ?thesis
      proof (cases "parseHello j")
        case None
        with Frame Some False nh show ?thesis by (simp add: onMessage_def)
      next
        case (Some hello)
        with Frame \<open>parsed = Some j\<close> e have "w \<noteq> ws" by auto
        with Frame \<open>parsed = Some j\<close> False Some nh show ?thesis
          by (simp add: onMessage_def acceptHello_fields)
      qed
    qed
  qed
next
  case (SocketClosed w)
  with nh show ?thesis by (simp add: onClose_fields(3))
next
  case (Call uuid m t)
  show ?thesis
  proof (cases "call uuid m t s")
    case (Inl err)
    with Call nh show ?thesis by simp
  next
    case (Inr s')
    with Call nh call_sockets [OF Inr] show ?thesis by simp
  qed
next
  case (CallTimerFires p)
  with nh show ?thesis by (simp add: callTimerFired_sockets)
next
  case (SendReports p err)
  with nh show ?thesis by (simp add: sendCallback_sockets)
next
  case (KeepAliveFires uuid)
  with nh show ?thesis by (simp add: keepAliveTick_sockets)
next
  case Close
  with nh show ?thesis by (simp add: close_fields(4))
qed

lemma no_hello_run:
  "ws \<notin> handshaked s \<Longrightarrow> list_all (\<lambda>(now, e). \<not> hello_on ws e) evs \<Longrightarrow>
   ws \<notin> handshaked (bridge_run evs s)"
proof (induction evs arbitrary: s)
  case Nil
  then show ?case by simp
next
  case (Cons x evs)
  obtain now e where x: "x = (now, e)" by (cases x)
  from Cons.prems x have "\<not> hello_on ws e" "list_all (\<lambda>(now, e). \<not> hello_on ws e) evs" by simp_all
  from Cons.IH [OF no_hello_step [OF Cons.prems(1) this(1)] this(2)] show ?case by (simp add: x)
qed

lemma handshake_steps:
  "(readyState s ws = None \<and> \<not> serverClosed s \<longrightarrow>
      handshakeTimers (bridge_step now (Connection ws addr) s) ws = Some 5000
      \<and> socket (bridge_step now (Connection ws addr) s) = socket s
      \<and> ws \<notin> handshaked (bridge_step now (Connection ws addr) s))
   \<and> bridge_step now (Frame ws None) s = s
   \<and> (alive s ws \<and> ws \<notin> handshaked s \<and> parseHello j = None \<longrightarrow>
        closeCalls (bridge_step now (Frame ws (Some j)) s) = closeCalls s @ [(ws, 4002, ''Invalid hello'')]
        \<and> socket (bridge_step now (Frame ws (Some j)) s) = socket s
        \<and> ws \<notin> handshaked (bridge_step now (Frame ws (Some j)) s))
   \<and> (handshakeTimers s ws \<noteq> None \<and> ws \<notin> handshaked s \<longrightarrow>
        closeCalls (bridge_step now (HandshakeTimeout ws) s)
          = closeCalls s @ [(ws, 4001, ''Handshake timeout'')]
        \<and> socket (bridge_step now (HandshakeTimeout ws) s) = socket s
        \<and> ws \<notin> handshaked (bridge_step now (HandshakeTimeout ws) s))"
  by (auto simp: handleConnection_def onMessage_def handshakeTimerFired_def Let_def)

lemma no_hello_no_connection:
  assumes r: "s = bridge_run evs new_bridge" and n: "ws \<notin> handshaked s"
    and l: "list_all (\<lambda>(now, e). \<not> hello_on ws e) later"
  shows "socket (bridge_run later s) \<noteq> Some ws \<and> ws \<notin> handshaked (bridge_run later s)"
proof -
  have "bridge_inv s" unfolding r by (rule inv_reachable)
  then have inv: "bridge_inv (bridge_run later s)" by (rule inv_run)
  have nh: "ws \<notin> handshaked (bridge_run later s)" using n l by (rule no_hello_run)
  with inv_socket [OF inv, of ws] show ?thesis by blast
qed

subsection \<open>Example states\<close>

lemmas bridge_defs = new_bridge_def handleConnection_def onMessage_def acceptHello_def call_def
  alive_def ws_close_def stopKeepAlive_def startKeepAlive_def hello_frame_def response_frame_def
  Let_def handleResponse_def settle_def clearCallTimer_def onClose_def close_def
  callTimerFired_def sendCallback_def keepAliveTick_def handshakeTimerFired_def

lemma one_peer_eq:
  "one_peer =
     \<lparr>socket = Some 1,
      clientHello = Some \<lparr>hello_token = None,
        hello_app = Some \<lparr>app_name = Some ''eda'', app_version = None, app_edaVersion = None\<rparr>\<rparr>,
      connectedAt = Some 10, remoteAddress = None, pending = [(''id-1'', 0)],
      keepAliveTimer = True, keepAliveInFlight = False, serverClosed = False, nextPromise = 1,
      calls = [0 \<mapsto> \<lparr>call_id = ''id-1'', call_method = ''ping'', call_timeoutMs = 30000,
                        call_socket = 1\<rparr>],
      settled = Map.empty, callTimers = {0}, sendCallbacks = {0}, keepAlivePings = {},
      handshaked = {1}, handshakeTimers = Map.empty, peerAddress = Map.empty,
      readyState = [1 \<mapsto> OPEN], closeCalls = [], sent = [(1, ''id-1'', ''ping'')]\<rparr>"
  by (simp add: one_peer_def bridge_defs)

lemma second_socket_eq:
  "second_socket = one_peer\<lparr>readyState := [1 \<mapsto> OPEN, 2 \<mapsto> OPEN],
      handshakeTimers := [2 \<mapsto> 5000]\<rparr>"
  by (simp add: second_socket_def one_peer_eq bridge_defs)

lemma fresh_socket_eq:
  "fresh_socket = new_bridge\<lparr>readyState := [1 \<mapsto> OPEN], handshakeTimers := [1 \<mapsto> 5000]\<rparr>"
  by (simp add: fresh_socket_def bridge_defs)

text \<open>
  Claim C1, as the code has it. In every bridge a run can reach: an outcome a promise
  has got stays the same through whatever happens later, so a call completes at most
  once; a step in which the promise of a call settles is a response bearing the id of
  that call, the timeout of that call, a failure of its send, the loss of its
  connection, or the \<^verbatim>\<open>close\<close> event of another socket that had not closed yet; and
  a response whose id has no entry in \<^verbatim>\<open>#pending\<close> changes no entry, no outcome and no
  timer, and nothing at all when its socket has shaken hands.
\<close>

theorem call_completes_once:
  assumes "s = bridge_run evs new_bridge"
  shows "(settled s p = Some out \<longrightarrow> settled (bridge_run later s) p = Some out)
    \<and> (settled s p = None \<and> settled (bridge_step now e s) p \<noteq> None
         \<longrightarrow> (\<exists>c. calls s p = Some c
                \<and> (reaction_to c p e
                    \<or> (\<exists>w. e = SocketClosed w \<and> w \<noteq> call_socket c \<and> alive s w))))
    \<and> (parseResponse j = Some msg \<and> map_of (pending s) (resp_id msg) = None
         \<longrightarrow> pending (bridge_step now (Frame ws (Some j)) s) = pending s
           \<and> settled (bridge_step now (Frame ws (Some j)) s) = settled s
           \<and> callTimers (bridge_step now (Frame ws (Some j)) s) = callTimers s
           \<and> (ws \<in> handshaked s \<longrightarrow> bridge_step now (Frame ws (Some j)) s = s))"
proof (intro conjI impI)
  assume "settled s p = Some out"
  then show "settled (bridge_run later s) p = Some out" by (rule run_keeps_outcome)
next
  assume a: "settled s p = None \<and> settled (bridge_step now e s) p \<noteq> None"
  have "bridge_inv s" unfolding assms by (rule inv_reachable)
  with a show "\<exists>c. calls s p = Some c
                \<and> (reaction_to c p e
                    \<or> (\<exists>w. e = SocketClosed w \<and> w \<noteq> call_socket c \<and> alive s w))"
    using step_settles_for_own_event by blast
next
  assume a: "parseResponse j = Some msg \<and> map_of (pending s) (resp_id msg) = None"
  then show "pending (bridge_step now (Frame ws (Some j)) s) = pending s"
    "settled (bridge_step now (Frame ws (Some j)) s) = settled s"
    "callTimers (bridge_step now (Frame ws (Some j)) s) = callTimers s"
    using unknown_response_ignored(1-3) [of j msg s now ws] by simp_all
  assume "ws \<in> handshaked s"
  with a show "bridge_step now (Frame ws (Some j)) s = s"
    using unknown_response_ignored(4) [of j msg s ws now] by simp
qed

theorem call_completes_once_witness:
  "settled one_peer 0 = None
   \<and> settled (bridge_step 25 (Frame 1 (Some (response_frame ''id-1''))) one_peer) 0
       = Some (Resolved (Some (JStr ''pong'')))
   \<and> (\<exists>c. calls one_peer 0 = Some c
          \<and> reaction_to c 0 (Frame 1 (Some (response_frame ''id-1''))))
   \<and> settled (bridge_run [(26, Frame 1 (Some (response_frame ''id-1''))), (30000, CallTimerFires 0),
                           (30001, SocketClosed 1)]
        (bridge_step 25 (Frame 1 (Some (response_frame ''id-1''))) one_peer)) 0
       = Some (Resolved (Some (JStr ''pong'')))
   \<and> settled second_socket 0 = None
   \<and> settled (bridge_step 35 (SocketClosed 2) second_socket) 0 = Some (Rejected BridgeDisconnected)
   \<and> (\<exists>c. calls second_socket 0 = Some c \<and> 2 \<noteq> call_socket c \<and> alive second_socket 2)
   \<and> parseResponse (response_frame ''id-9'')
       = Some \<lparr>resp_id = ''id-9'', resp_result = Some (JStr ''pong''), resp_error = None\<rparr>
   \<and> map_of (pending one_peer) ''id-9'' = None
   \<and> 1 \<in> handshaked one_peer
   \<and> bridge_step 25 (Frame 1 (Some (response_frame ''id-9''))) one_peer = one_peer"
proof -
  let ?f = "Frame 1 (Some (response_frame ''id-1''))"
  let ?s1 = "bridge_step 25 ?f one_peer"
  let ?later = "[(26, ?f), (30000, CallTimerFires 0), (30001, SocketClosed 1)]"
  let ?msg = "\<lparr>resp_id = ''id-9'', resp_result = Some (JStr ''pong''), resp_error = None\<rparr>"
  have r: "one_peer = bridge_run [(0, Connection 1 None), (10, Frame 1 (Some hello_frame)),
                 (20, Call ''id-1'' ''ping'' 30000)] new_bridge"
    by (simp only: one_peer_def)
  have r1: "?s1 = bridge_run [(0, Connection 1 None), (10, Frame 1 (Some hello_frame)),
                 (20, Call ''id-1'' ''ping'' 30000), (25, ?f)] new_bridge"
    by (simp only: one_peer_def bridge_run.simps)
  have r2: "second_socket = bridge_run [(0, Connection 1 None), (10, Frame 1 (Some hello_frame)),
      (20, Call ''id-1'' ''ping'' 30000), (30, Connection 2 None)] new_bridge"
    by (simp only: second_socket_def one_peer_def bridge_run.simps)
  have a: "settled one_peer 0 = None" by (simp add: one_peer_eq)
  have b: "settled ?s1 0 = Some (Resolved (Some (JStr ''pong'')))"
    by (simp add: one_peer_eq bridge_defs)
  have b': "settled ?s1 0 \<noteq> None" unfolding b by simp
  have cs: "calls one_peer 0 = Some \<lparr>call_id = ''id-1'', call_method = ''ping'',
      call_timeoutMs = 30000, call_socket = 1\<rparr>"
    by (simp add: one_peer_eq)
  from call_completes_once [OF r, where p = 0 and now = 25 and e = ?f] a b'
  have "\<exists>c. calls one_peer 0 = Some c
          \<and> (reaction_to c 0 ?f \<or> (\<exists>w. ?f = SocketClosed w \<and> w \<noteq> call_socket c \<and> alive one_peer w))"
    by blast
  then have c: "\<exists>c. calls one_peer 0 = Some c \<and> reaction_to c 0 ?f" by blast
  have d: "settled (bridge_run ?later ?s1) 0 = Some (Resolved (Some (JStr ''pong'')))"
    using call_completes_once [OF r1, where p = 0 and out = "Resolved (Some (JStr ''pong''))"
        and later = ?later] b by blast
  have k: "settled second_socket 0 = None" by (simp add: second_socket_eq one_peer_eq)
  have l: "settled (bridge_step 35 (SocketClosed 2) second_socket) 0
      = Some (Rejected BridgeDisconnected)"
    by (simp add: second_socket_eq one_peer_eq bridge_defs)
  have l': "settled (bridge_step 35 (SocketClosed 2) second_socket) 0 \<noteq> None" unfolding l by simp
  have cs2: "calls second_socket 0 = Some \<lparr>call_id = ''id-1'', call_method = ''ping'',
      call_timeoutMs = 30000, call_socket = 1\<rparr>"
    by (simp add: second_socket_eq one_peer_eq)
  from call_completes_once [OF r2, where p = 0 and now = 35 and e = "SocketClosed 2"] k l'
  have "\<exists>c. calls second_socket 0 = Some c
          \<and> (reaction_to c 0 (SocketClosed 2)
              \<or> (\<exists>w. SocketClosed 2 = SocketClosed w \<and> w \<noteq> call_socket c \<and> alive second_socket w))"
    by blast
  with cs2 have m: "\<exists>c. calls second_socket 0 = Some c \<and> 2 \<noteq> call_socket c \<and> alive second_socket 2"
    by auto
  have e: "parseResponse (response_frame ''id-9'') = Some ?msg"
    by (simp add: response_frame_def)
  have f: "map_of (pending one_peer) ''id-9'' = None" by (simp add: one_peer_eq)
  have f': "map_of (pending one_peer) (resp_id ?msg) = None" using f by simp
  have g: "1 \<in> handshaked one_peer" by (simp add: one_peer_eq)
  have h: "bridge_step 25 (Frame 1 (Some (response_frame ''id-9''))) one_peer = one_peer"
    using call_completes_once [OF r, where j = "response_frame ''id-9''" and msg = ?msg
        and now = 25 and ws = 1] e f' g
    by blast
  from a b c d k l m e f g h show ?thesis by blast
qed

theorem stray_close_rejects_call:
  "calls second_socket 0
     = Some \<lparr>call_id = ''id-1'', call_method = ''ping'', call_timeoutMs = 30000, call_socket = 1\<rparr>
   \<and> socket second_socket = Some 1 \<and> live second_socket 1 \<and> 2 \<notin> handshaked second_socket
   \<and> settled second_socket 0 = None
   \<and> settled (bridge_step 35 (SocketClosed 2) second_socket) 0 = Some (Rejected BridgeDisconnected)
   \<and> \<not> reaction_to \<lparr>call_id = ''id-1'', call_method = ''ping'', call_timeoutMs = 30000,
                      call_socket = 1\<rparr> 0 (SocketClosed 2)
   \<and> socket (bridge_step 35 (SocketClosed 2) second_socket) = Some 1
   \<and> live (bridge_step 35 (SocketClosed 2) second_socket) 1"
  by (simp add: second_socket_eq one_peer_eq live_def bridge_defs)

text \<open>
  Claim C10. In every bridge a run can reach, the \<^verbatim>\<open>close\<close> event of any socket that
  has not closed yet, be it the active one or one that was replaced, empties
  \<^verbatim>\<open>#pending\<close> and rejects the promise of every entry with \<^verbatim>\<open>Bridge disconnected\<close>,
  whichever socket the call was sent on; when the socket is not the active one,
  \<^verbatim>\<open>#socket\<close> stays as it is.
\<close>

theorem close_event_rejects_every_pending_call:
  assumes "s = bridge_run evs new_bridge" and "alive s ws" and "(i, p) \<in> set (pending s)"
  shows "pending (bridge_step now (SocketClosed ws) s) = []
    \<and> settled (bridge_step now (SocketClosed ws) s) p = Some (Rejected BridgeDisconnected)
    \<and> (socket s \<noteq> Some ws \<longrightarrow> socket (bridge_step now (SocketClosed ws) s) = socket s)"
proof -
  have "bridge_inv s" unfolding assms(1) by (rule inv_reachable)
  from inv_entry [OF this assms(3)] have "settled s p = None" by simp
  moreover have "p \<in> snd ` set (pending s)" using assms(3) by force
  ultimately show ?thesis using assms(2) by (simp add: onClose_pending onClose_fields)
qed

theorem close_event_rejects_every_pending_call_witness:
  "alive two_peers 1 \<and> socket two_peers = Some 2
   \<and> (''id-2'', 1) \<in> set (pending two_peers)
   \<and> map_option call_socket (calls two_peers 1) = Some 2
   \<and> pending (bridge_step 60 (SocketClosed 1) two_peers) = []
   \<and> settled (bridge_step 60 (SocketClosed 1) two_peers) 1 = Some (Rejected BridgeDisconnected)
   \<and> socket (bridge_step 60 (SocketClosed 1) two_peers) = Some 2"
proof -
  have r: "two_peers = bridge_run [(0, Connection 1 None), (10, Frame 1 (Some hello_frame)),
      (20, Call ''id-1'' ''ping'' 30000), (30, Connection 2 None),
      (40, Frame 2 (Some hello_frame)), (50, Call ''id-2'' ''getStatus'' 30000)] new_bridge"
    by (simp only: two_peers_def one_peer_def bridge_run.simps)
  have a: "alive two_peers 1" by (simp add: two_peers_def one_peer_eq bridge_defs)
  have b: "socket two_peers = Some 2" by (simp add: two_peers_def one_peer_eq bridge_defs)
  have c: "(''id-2'', 1) \<in> set (pending two_peers)"
    by (simp add: two_peers_def one_peer_eq bridge_defs)
  have d: "map_option call_socket (calls two_peers 1) = Some 2"
    by (simp add: two_peers_def one_peer_eq bridge_defs)
  have e: "socket two_peers \<noteq> Some 1" unfolding b by simp
  from close_event_rejects_every_pending_call [OF r a c, of 60] e
  have "pending (bridge_step 60 (SocketClosed 1) two_peers) = []"
    "settled (bridge_step 60 (SocketClosed 1) two_peers) 1 = Some (Rejected BridgeDisconnected)"
    "socket (bridge_step 60 (SocketClosed 1) two_peers) = socket two_peers"
    by blast+
  with a b c d show ?thesis by simp
qed





text \<open>
  Claim C4, as the code has it. A new inbound connection arms a handshake timer of
  5000 ms and creates no connection. A frame that is not JSON changes nothing. A JSON
  frame that does not decode as a hello, on a socket that has not shaken hands, makes
  the server ask the socket to close with code 4002 and reason \<^verbatim>\<open>Invalid hello\<close>; the
  timer firing on a socket that has not shaken hands makes it ask with code 4001 and
  reason \<^verbatim>\<open>Handshake timeout\<close>. Neither step changes \<^verbatim>\<open>#socket\<close> or lets the socket
  have shaken hands; and through a run in which no frame that decodes as a hello is
  delivered on it, a socket that has not shaken hands does not become \<^verbatim>\<open>#socket\<close>.
\<close>

theorem handshake_watchdog:
  "(readyState s ws = None \<and> \<not> serverClosed s \<longrightarrow>
      handshakeTimers (bridge_step now (Connection ws addr) s) ws = Some 5000
      \<and> socket (bridge_step now (Connection ws addr) s) = socket s
      \<and> ws \<notin> handshaked (bridge_step now (Connection ws addr) s))
   \<and> bridge_step now (Frame ws None) s = s
   \<and> (alive s ws \<and> ws \<notin> handshaked s \<and> parseHello j = None \<longrightarrow>
        closeCalls (bridge_step now (Frame ws (Some j)) s) = closeCalls s @ [(ws, 4002, ''Invalid hello'')]
        \<and> socket (bridge_step now (Frame ws (Some j)) s) = socket s
        \<and> ws \<notin> handshaked (bridge_step now (Frame ws (Some j)) s))
   \<and> (handshakeTimers s ws \<noteq> None \<and> ws \<notin> handshaked s \<longrightarrow>
        closeCalls (bridge_step now (HandshakeTimeout ws) s)
          = closeCalls s @ [(ws, 4001, ''Handshake timeout'')]
        \<and> socket (bridge_step now (HandshakeTimeout ws) s) = socket s
        \<and> ws \<notin> handshaked (bridge_step now (HandshakeTimeout ws) s))
   \<and> (s = bridge_run evs new_bridge \<and> ws \<notin> handshaked s
        \<and> list_all (\<lambda>(now, e). \<not> hello_on ws e) later \<longrightarrow>
        socket (bridge_run later s) \<noteq> Some ws \<and> ws \<notin> handshaked (bridge_run later s))"
proof -
  note steps = handshake_steps [of s ws now addr j]
  have run: "s = bridge_run evs new_bridge \<and> ws \<notin> handshaked s
        \<and> list_all (\<lambda>(now, e). \<not> hello_on ws e) later \<longrightarrow>
        socket (bridge_run later s) \<noteq> Some ws \<and> ws \<notin> handshaked (bridge_run later s)"
  proof
    assume "s = bridge_run evs new_bridge \<and> ws \<notin> handshaked s
        \<and> list_all (\<lambda>(now, e). \<not> hello_on ws e) later"
    then have r: "s = bridge_run evs new_bridge" and n: "ws \<notin> handshaked s"
      and l: "list_all (\<lambda>(now, e). \<not> hello_on ws e) later"
      by blast+
    show "socket (bridge_run later s) \<noteq> Some ws \<and> ws \<notin> handshaked (bridge_run later s)"
      by (rule no_hello_no_connection [OF r n l])
  qed
  from steps run show ?thesis by (elim conjE, intro conjI)
qed

theorem handshake_watchdog_witness:
  "readyState new_bridge 1 = None \<and> \<not> serverClosed new_bridge
   \<and> handshakeTimers fresh_socket 1 = Some 5000
   \<and> alive fresh_socket 1 \<and> 1 \<notin> handshaked fresh_socket
   \<and> parseHello (response_frame ''x'') = None
   \<and> closeCalls (bridge_step 10 (Frame 1 (Some (response_frame ''x''))) fresh_socket)
       = [(1, 4002, ''Invalid hello'')]
   \<and> socket (bridge_step 10 (Frame 1 (Some (response_frame ''x''))) fresh_socket) = None
   \<and> closeCalls (bridge_step 5000 (HandshakeTimeout 1) fresh_socket)
       = [(1, 4001, ''Handshake timeout'')]
   \<and> socket (bridge_step 5000 (HandshakeTimeout 1) fresh_socket) = None
   \<and> 2 \<notin> handshaked second_socket
   \<and> list_all (\<lambda>(now, e). \<not> hello_on 2 e)
        [(40, Frame 2 (Some (response_frame ''x''))), (50, Frame 1 (Some hello_frame)),
         (60, Frame 2 None), (5030, HandshakeTimeout 2)]
   \<and> socket (bridge_run [(40, Frame 2 (Some (response_frame ''x''))),
         (50, Frame 1 (Some hello_frame)), (60, Frame 2 None), (5030, HandshakeTimeout 2)]
         second_socket) \<noteq> Some 2"
proof -
  let ?later = "[(40, Frame 2 (Some (response_frame ''x''))), (50, Frame 1 (Some hello_frame)),
         (60, Frame 2 None), (5030, HandshakeTimeout 2)]"
  have a: "readyState new_bridge 1 = None" "\<not> serverClosed new_bridge"
    by (simp_all add: new_bridge_def)
  have b: "alive fresh_socket 1" "1 \<notin> handshaked fresh_socket"
    "handshakeTimers fresh_socket 1 \<noteq> None" "closeCalls fresh_socket = []"
    "socket fresh_socket = None"
    by (simp_all add: fresh_socket_eq new_bridge_def alive_def)
  have c: "parseHello (response_frame ''x'') = None" by (simp add: response_frame_def)
  from handshake_watchdog [of new_bridge 1 0 None] a
  have t: "handshakeTimers fresh_socket 1 = Some 5000" unfolding fresh_socket_def by blast
  from handshake_watchdog [of fresh_socket 1 10 _ "response_frame ''x''"] b(1,2) c
  have "closeCalls (bridge_step 10 (Frame 1 (Some (response_frame ''x''))) fresh_socket)
       = closeCalls fresh_socket @ [(1, 4002, ''Invalid hello'')]"
    "socket (bridge_step 10 (Frame 1 (Some (response_frame ''x''))) fresh_socket)
       = socket fresh_socket" by blast+
  then have d: "closeCalls (bridge_step 10 (Frame 1 (Some (response_frame ''x''))) fresh_socket)
       = [(1, 4002, ''Invalid hello'')]"
    "socket (bridge_step 10 (Frame 1 (Some (response_frame ''x''))) fresh_socket) = None"
    by (simp_all only: b(4,5) append_Nil)
  from handshake_watchdog [of fresh_socket 1 5000] b(2,3)
  have "closeCalls (bridge_step 5000 (HandshakeTimeout 1) fresh_socket)
       = closeCalls fresh_socket @ [(1, 4001, ''Handshake timeout'')]"
    "socket (bridge_step 5000 (HandshakeTimeout 1) fresh_socket) = socket fresh_socket"
    by blast+
  then have e: "closeCalls (bridge_step 5000 (HandshakeTimeout 1) fresh_socket)
       = [(1, 4001, ''Handshake timeout'')]"
    "socket (bridge_step 5000 (HandshakeTimeout 1) fresh_socket) = None"
    by (simp_all only: b(4,5) append_Nil)
  have r: "second_socket = bridge_run [(0, Connection 1 None), (10, Frame 1 (Some hello_frame)),
      (20, Call ''id-1'' ''ping'' 30000), (30, Connection 2 None)] new_bridge"
    by (simp only: second_socket_def one_peer_def bridge_run.simps)
  have f: "2 \<notin> handshaked second_socket" by (simp add: second_socket_eq one_peer_eq)
  have g: "list_all (\<lambda>(now, e). \<not> hello_on 2 e) ?later"
    by (simp add: response_frame_def)
  from r f g have "second_socket = bridge_run [(0, Connection 1 None),
      (10, Frame 1 (Some hello_frame)), (20, Call ''id-1'' ''ping'' 30000),
      (30, Connection 2 None)] new_bridge
    \<and> 2 \<notin> handshaked second_socket \<and> list_all (\<lambda>(now, e). \<not> hello_on 2 e) ?later"
    by (intro conjI)
  from handshake_watchdog [THEN conjunct2, THEN conjunct2, THEN conjunct2, THEN conjunct2,
      THEN mp, OF this]
  have h: "socket (bridge_run ?later second_socket) \<noteq> Some 2" by (rule conjunct1)
  show ?thesis by (intro conjI a b(1,2) c t d e f g h)
qed

theorem handshake_watchdog_counterexample:
  "handshakeTimers (bridge_step 0 (Connection 1 None) new_bridge) 1 = Some 5000
   \<and> handshakeTimers (bridge_step 0 (Connection 1 None) new_bridge) 1 \<noteq> Some 8000
   \<and> closeCalls (bridge_run [(0, Connection 1 None), (10, Frame 1 None)] new_bridge) = []
   \<and> socket (bridge_run [(0, Connection 1 None), (10, Frame 1 None),
                          (20, Frame 1 (Some hello_frame))] new_bridge) = Some 1"
  by (simp add: bridge_defs)

section \<open>Properties of the netlist parsers\<close>

subsection \<open>Upper case\<close>

lemma toUpperChar_idem: "toUpperChar (toUpperChar c) = toUpperChar c"
  by (simp add: toUpperChar_def)

lemma toUpperCase_idem: "toUpperCase (toUpperCase s) = toUpperCase s"
  by (simp add: toUpperCase_def toUpperChar_idem)

lemma upper_normalizeNetName: "toUpperCase (normalizeNetName n) = normalizeNetName n"
  by (simp add: normalizeNetName_def toUpperCase_idem)

lemma upper_endpoint_normalized: "upper_endpoint \<lparr>ref = normalizeRef a, pin = normalizePin b\<rparr>"
  by (simp add: upper_endpoint_def normalizeRef_def normalizePin_def toUpperCase_idem)

subsection \<open>The net table\<close>

lemma set_update_subset: "set (AList.update k v xs) \<subseteq> insert (k, v) (set xs)"
  by (induction xs) auto

lemma table_ok_Nil: "table_ok []"
  by (simp add: table_ok_def)

lemma table_ok_ensureNet: "table_ok t \<Longrightarrow> table_ok (ensureNet name t)"
  by (auto simp: table_ok_def ensureNet_def Let_def split: option.splits)

lemma table_ok_addEndpoint:
  assumes "table_ok t" and "upper_endpoint ep"
  shows "table_ok (addEndpoint name ep t)"
proof -
  let ?t1 = "ensureNet name t"
  let ?key = "normalizeNetName name"
  have t1: "table_ok ?t1" using assms(1) by (rule table_ok_ensureNet)
  show ?thesis
  proof (cases "map_of ?t1 ?key")
    case None
    with t1 show ?thesis by (simp add: addEndpoint_def Let_def)
  next
    case (Some entry)
    obtain nm eps where entry: "entry = (nm, eps)" by (cases entry)
    from Some entry have "(?key, (nm, eps)) \<in> set ?t1" by (auto dest: map_of_SomeD)
    with t1 have eps: "distinct (map fst eps)"
      "\<forall>(ek, e) \<in> set eps. ek = endpointKey e \<and> upper_endpoint e"
      unfolding table_ok_def by auto
    let ?eps' = "AList.update (endpointKey ep) ep eps"
    have d: "distinct (map fst ?eps')" using eps(1) by (rule AList.distinct_update)
    have e: "\<forall>(ek, e) \<in> set ?eps'. ek = endpointKey e \<and> upper_endpoint e"
      using eps(2) assms(2) set_update_subset [of "endpointKey ep" ep eps] by auto
    have "addEndpoint name ep t = AList.update ?key (nm, ?eps') ?t1"
      using Some entry by (simp add: addEndpoint_def Let_def)
    moreover have "table_ok (AList.update ?key (nm, ?eps') ?t1)"
      unfolding table_ok_def
    proof (clarify)
      fix k nm' eps'' assume "(k, (nm', eps'')) \<in> set (AList.update ?key (nm, ?eps') ?t1)"
      with set_update_subset [of ?key "(nm, ?eps')" ?t1]
      have "(k, (nm', eps'')) = (?key, (nm, ?eps')) \<or> (k, (nm', eps'')) \<in> set ?t1" by auto
      then show "distinct (map fst eps'')
          \<and> (\<forall>(ek, e) \<in> set eps''. ek = endpointKey e \<and> upper_endpoint e)"
      proof
        assume "(k, (nm', eps'')) = (?key, (nm, ?eps'))"
        with d e show ?thesis by simp
      next
        assume "(k, (nm', eps'')) \<in> set ?t1"
        with t1 show ?thesis unfolding table_ok_def by auto
      qed
    qed
    ultimately show ?thesis by simp
  qed
qed

lemma table_ok_fold_addEndpoint:
  "table_ok t \<Longrightarrow> \<forall>e \<in> set eps. upper_endpoint e \<Longrightarrow> table_ok (fold (addEndpoint cur) eps t)"
  by (induction eps arbitrary: t) (auto simp: table_ok_addEndpoint)

subsection \<open>The extractors give endpoints in upper case\<close>

lemma upper_tryPair: "tryPair a b = Some e \<Longrightarrow> upper_endpoint e"
  by (auto simp: tryPair_def Let_def upper_endpoint_normalized split: option.splits if_splits)

lemma upper_extractRefPinPair: "extractRefPinPair line = Some e \<Longrightarrow> upper_endpoint e"
  by (auto simp: extractRefPinPair_def Let_def dest: upper_tryPair split: if_splits)

lemma upper_extractRefPinInlineTokens:
  "\<forall>e \<in> set (extractRefPinInlineTokens line). upper_endpoint e"
  by (auto simp: extractRefPinInlineTokens_def upper_endpoint_normalized split: option.splits)

lemma upper_parseKiCadSexprNode: "parseKiCadSexprNode line = Some e \<Longrightarrow> upper_endpoint e"
  by (auto simp: parseKiCadSexprNode_def upper_endpoint_normalized split: option.splits)

subsection \<open>The loops keep the table well formed\<close>

lemma table_ok_kicadLine: "table_ok (fst st) \<Longrightarrow> table_ok (fst (kicadLine line st))"
proof -
  assume t: "table_ok (fst st)"
  show ?thesis
  proof (cases "parseKiCadSexprNetStart line")
    case (Some netName)
    with t show ?thesis by (simp add: kicadLine_def table_ok_ensureNet)
  next
    case None
    show ?thesis
    proof (cases "parseKiCadSexprNode line")
      case None
      with \<open>parseKiCadSexprNetStart line = None\<close> t show ?thesis
        by (simp add: kicadLine_def split: option.splits)
    next
      case (Some node)
      from upper_parseKiCadSexprNode [OF Some] t
      have "\<And>cur. table_ok (addEndpoint cur node (fst st))" by (simp add: table_ok_addEndpoint)
      with \<open>parseKiCadSexprNetStart line = None\<close> Some t show ?thesis
        by (simp add: kicadLine_def split: option.splits)
    qed
  qed
qed

lemma table_ok_endpointLine: "table_ok (fst st) \<Longrightarrow> table_ok (fst (endpointLine line st))"
proof -
  assume t: "table_ok (fst st)"
  have t1: "\<And>cur. table_ok (ensureNet cur (fst st))" using t by (rule table_ok_ensureNet)
  show ?thesis
  proof (cases "extractRefPinPair line")
    case None
    have "\<And>cur. table_ok (fold (addEndpoint cur) (extractRefPinInlineTokens line)
                      (ensureNet cur (fst st)))"
      using t1 upper_extractRefPinInlineTokens by (rule table_ok_fold_addEndpoint)
    with None t show ?thesis by (simp add: endpointLine_def Let_def split: option.splits)
  next
    case (Some pair)
    from upper_extractRefPinPair [OF Some] t1
    have "\<And>cur. table_ok (addEndpoint cur pair (ensureNet cur (fst st)))"
      by (simp add: table_ok_addEndpoint)
    with Some t show ?thesis by (simp add: endpointLine_def Let_def split: option.splits)
  qed
qed

lemma table_ok_blockLine: "table_ok (fst st) \<Longrightarrow> table_ok (fst (blockLine line st))"
  by (simp add: blockLine_def table_ok_ensureNet table_ok_endpointLine split: option.splits)

lemma table_ok_parseLine: "table_ok (fst st) \<Longrightarrow> table_ok (fst (parseLine k raw st))"
  by (simp add: parseLine_def Let_def table_ok_kicadLine table_ok_blockLine)

lemma table_ok_fold_parseLine:
  "table_ok (fst st) \<Longrightarrow> table_ok (fst (fold (parseLine k) ls st))"
  by (induction ls arbitrary: st) (auto simp: table_ok_parseLine)

lemma table_ok_parsePin:
  assumes "table_ok (snd st)" and "toUpperCase r = r"
  shows "table_ok (snd (parsePin r entry st))"
proof -
  have "\<And>n p. table_ok (addEndpoint n \<lparr>ref = r, pin = normalizePin p\<rparr> (snd st))"
    using assms by (simp add: table_ok_addEndpoint upper_endpoint_def normalizePin_def
        toUpperCase_idem)
  with assms(1) show ?thesis by (simp add: parsePin_def Let_def split: option.splits)
qed

lemma table_ok_fold_parsePin:
  "table_ok (snd st) \<Longrightarrow> toUpperCase r = r \<Longrightarrow> table_ok (snd (fold (parsePin r) ps st))"
  by (induction ps arbitrary: st) (auto simp: table_ok_parsePin)

lemma table_ok_parseComponent:
  assumes "table_ok (snd st)"
  shows "table_ok (snd (parseComponent entry st))"
proof -
  have "\<And>d ps. table_ok (snd (fold (parsePin (normalizeRef d)) ps ([], snd st)))"
    using assms by (simp add: table_ok_fold_parsePin normalizeRef_def toUpperCase_idem)
  with assms show ?thesis by (simp add: parseComponent_def Let_def split: option.splits)
qed

lemma table_ok_fold_parseComponent:
  "table_ok (snd st) \<Longrightarrow> table_ok (snd (fold parseComponent cs st))"
  by (induction cs arbitrary: st) (auto simp: table_ok_parseComponent)

subsection \<open>The result of a well-formed table\<close>

lemma distinct_endpoints:
  assumes "distinct (map fst eps)"
    and "\<forall>(ek, e) \<in> set eps. ek = endpointKey e \<and> upper_endpoint e"
  shows "distinct (map (\<lambda>e. (toUpperCase (ref e), toUpperCase (pin e))) (map snd eps))"
proof -
  let ?g = "\<lambda>x. (toUpperCase (ref (snd x)), toUpperCase (pin (snd x)))"
  from assms(1) have d: "distinct eps" and inj: "inj_on fst (set eps)"
    by (simp_all add: distinct_map)
  have key: "\<And>x. x \<in> set eps \<Longrightarrow> fst x = fst (?g x) @ ''.'' @ snd (?g x)"
  proof -
    fix x assume "x \<in> set eps"
    with assms(2) have "fst x = endpointKey (snd x)" "upper_endpoint (snd x)"
      by (cases x, fastforce)+
    then show "fst x = fst (?g x) @ ''.'' @ snd (?g x)"
      by (simp add: endpointKey_def upper_endpoint_def)
  qed
  have "inj_on ?g (set eps)"
  proof (rule inj_onI)
    fix x y assume x: "x \<in> set eps" and y: "y \<in> set eps" and eq: "?g x = ?g y"
    from key [OF x] key [OF y] eq have "fst x = fst y" by simp
    with inj x y show "x = y" by (auto dest: inj_onD)
  qed
  with d have "distinct (map ?g eps)" by (simp add: distinct_map)
  then show ?thesis by (simp add: comp_def)
qed

lemma nets_ok_fold:
  assumes "table_ok t" and "nets_ok acc"
  shows "nets_ok (fold (\<lambda>(key, (nm, eps)) acc. AList.update (normalizeNetName nm) (map snd eps) acc) t acc)"
  using assms
proof (induction t arbitrary: acc)
  case Nil
  then show ?case by simp
next
  case (Cons x t)
  obtain key nm eps where x: "x = (key, (nm, eps))" by (cases x) auto
  from Cons.prems(1) have t: "table_ok t" and e: "distinct (map fst eps)"
    "\<forall>(ek, e) \<in> set eps. ek = endpointKey e \<and> upper_endpoint e"
    by (auto simp: table_ok_def x)
  let ?acc' = "AList.update (normalizeNetName nm) (map snd eps) acc"
  have "nets_ok ?acc'"
    unfolding nets_ok_def
  proof (intro conjI ballI)
    show "distinct (map fst ?acc')"
      using Cons.prems(2) by (simp add: nets_ok_def AList.distinct_update)
  next
    fix y assume "y \<in> set ?acc'"
    with set_update_subset [of "normalizeNetName nm" "map snd eps" acc]
    have "y = (normalizeNetName nm, map snd eps) \<or> y \<in> set acc" by auto
    then show "case y of (n, eps) \<Rightarrow>
        distinct (map (\<lambda>e. (toUpperCase (ref e), toUpperCase (pin e))) eps) \<and> toUpperCase n = n"
    proof
      assume "y = (normalizeNetName nm, map snd eps)"
      with distinct_endpoints [OF e] show ?thesis by (simp add: upper_normalizeNetName)
    next
      assume "y \<in> set acc"
      with Cons.prems(2) show ?thesis by (auto simp: nets_ok_def)
    qed
  qed
  from Cons.IH [OF t this] show ?case by (simp add: x)
qed

lemma nets_ok_canonical: "nets_ok r \<Longrightarrow> canonical_nets r"
proof -
  assume a: "nets_ok r"
  have eq: "map (\<lambda>(n, eps). toUpperCase n) r = map fst r"
    by (rule map_cong) (use a in \<open>auto simp: nets_ok_def\<close>)
  show ?thesis unfolding canonical_nets_def eq using a by (auto simp: nets_ok_def)
qed

lemma canonical_netsOf: "table_ok t \<Longrightarrow> canonical_nets (netsOf t)"
  unfolding netsOf_def by (rule nets_ok_canonical, rule nets_ok_fold) (simp_all add: nets_ok_def)

lemma canonical_parseNetlist: "canonical_nets (nets (parseNetlist text))"
  by (simp add: parseNetlist_def Let_def canonical_netsOf table_ok_fold_parseLine table_ok_Nil)

lemma canonical_parseJlcJsonRoot: "parseJlcJsonRoot root = Some r \<Longrightarrow> canonical_nets (pj_nets r)"
  by (auto simp: parseJlcJsonRoot_def Let_def canonical_netsOf table_ok_fold_parseComponent
      table_ok_Nil split: option.splits)

lemma canonical_parseJlcJsonNetlist:
  "parseJlcJsonNetlist jsonParse text = Some r \<Longrightarrow> canonical_nets (pj_nets r)"
  by (auto simp: parseJlcJsonNetlist_def Let_def dest: canonical_parseJlcJsonRoot
      split: option.splits if_splits)

subsection \<open>Claims on the parsers\<close>

text \<open>
  Claim C7, as the code has it, for input in ASCII. In the result of either parser, no
  net has two endpoints with the same pair of upper-cased reference and pin, no two
  net names are equal up to case, and every net name is its own upper-case form: the
  result is keyed by the normalised name, not by the name as first seen.
\<close>

theorem parse_results_canonical:
  "(isAscii text \<longrightarrow> canonical_nets (nets (parseNetlist text)))
   \<and> (isAscii text' \<and> jsonParse (trim text') = Some root \<and> asciiJson root
        \<and> parseJlcJsonNetlist jsonParse text' = Some r
      \<longrightarrow> canonical_nets (pj_nets r))"
  using canonical_parseNetlist canonical_parseJlcJsonNetlist by blast

lemma mixed_case_nets:
  "nets (parseNetlist mixed_case_text)
     = [(''GND'', [\<lparr>ref = ''R1'', pin = ''1''\<rparr>, \<lparr>ref = ''C1'', pin = ''2''\<rparr>])]"
  by code_simp

lemma vcc_root_result: "parseJlcJsonNetlist (\<lambda>t. Some vcc_root) ''{}'' = Some vcc_result"
  by code_simp

lemma ascii_examples:
  "isAscii mixed_case_text" "isAscii ''{}''" "asciiJson vcc_root"
  by code_simp+

theorem parse_results_canonical_witness:
  "isAscii mixed_case_text
   \<and> nets (parseNetlist mixed_case_text)
     = [(''GND'', [\<lparr>ref = ''R1'', pin = ''1''\<rparr>, \<lparr>ref = ''C1'', pin = ''2''\<rparr>])]
   \<and> canonical_nets (nets (parseNetlist mixed_case_text))
   \<and> isAscii ''{}'' \<and> asciiJson vcc_root
   \<and> parseJlcJsonNetlist (\<lambda>t. Some vcc_root) ''{}'' = Some vcc_result
   \<and> canonical_nets (pj_nets vcc_result)"
  using parse_results_canonical [of mixed_case_text "''{}''" "\<lambda>t. Some vcc_root" vcc_root
      vcc_result]
    mixed_case_nets vcc_root_result ascii_examples by blast

theorem first_seen_casing_not_kept:
  "matchNetMarker ''*NET*'' ''*NET* Gnd'' = Some ''Gnd''
   \<and> map fst (nets (parseNetlist mixed_case_text)) = [''GND'']
   \<and> ''Gnd'' \<notin> set (map fst (nets (parseNetlist mixed_case_text)))"
  by code_simp

text \<open>
  Claim C8. The text parser turns the text of the specification's test into the nets
  \<open>GND\<close> with the endpoints \<open>R1.2\<close> and \<open>C1.1\<close>, and \<open>VCC\<close> with the endpoint \<open>U1.1\<close>,
  and gives no warning.
\<close>

theorem spec_text_parsed:
  "nets (parseNetlist spec_text)
     = [(''GND'', [\<lparr>ref = ''R1'', pin = ''2''\<rparr>, \<lparr>ref = ''C1'', pin = ''1''\<rparr>]),
        (''VCC'', [\<lparr>ref = ''U1'', pin = ''1''\<rparr>])]
   \<and> warnings (parseNetlist spec_text) = []
   \<and> ok (parseNetlist spec_text)"
  by code_simp

subsection \<open>Pins and their nets\<close>

lemma trim_VCC: "trim ''VCC'' = ''VCC''"
  by (simp add: trim_def isWhite_def)

lemma normalizeNetName_VCC: "normalizeNetName ''VCC'' = ''VCC''"
  by (simp add: normalizeNetName_def trim_VCC stripQuotes_def toUpperCase_def toUpperChar_def)

lemma parsePin_on_vcc:
  assumes "map_of pinObj ''net'' = Some (JStr ''VCC'')"
  shows "snd (parsePin r (pinId, JObj pinObj) st)
           = addEndpoint ''VCC'' \<lparr>ref = r, pin = normalizePin (pinNumber pinId pinObj)\<rparr> (snd st)"
  using assms by (simp add: parsePin_def pinNet_def Let_def trim_VCC)

lemma parseComponent_table:
  "snd (parseComponent (compId, JObj compObj) st)
     = snd (fold (parsePin (normalizeRef (designatorOf compId (propsOf compObj))))
                 (pinInfoMapOf compObj) ([], snd st))"
  by (simp add: parseComponent_def Let_def)

lemma addEndpoint_first:
  "addEndpoint ''VCC'' e [] = [(''VCC'', (''VCC'', [(endpointKey e, e)]))]"
  by (simp add: addEndpoint_def ensureNet_def Let_def normalizeNetName_VCC trim_VCC)

lemma addEndpoint_second:
  "endpointKey e1 \<noteq> endpointKey e2 \<Longrightarrow>
   addEndpoint ''VCC'' e2 [(''VCC'', (''VCC'', [(endpointKey e1, e1)]))]
     = [(''VCC'', (''VCC'', [(endpointKey e1, e1), (endpointKey e2, e2)]))]"
  by (simp add: addEndpoint_def ensureNet_def Let_def normalizeNetName_VCC)

lemma addEndpoint_again:
  "addEndpoint ''VCC'' e [(''VCC'', (''VCC'', [(endpointKey e, e)]))]
     = [(''VCC'', (''VCC'', [(endpointKey e, e)]))]"
  by (simp add: addEndpoint_def ensureNet_def Let_def normalizeNetName_VCC)

lemma netless_parsePin: "netless entry \<Longrightarrow> snd (parsePin r entry st) = snd st"
  by (simp add: netless_def parsePin_def Let_def split: option.splits)

lemma parsePin_table_only: "snd (parsePin r entry (a, t)) = snd (parsePin r entry (b, t))"
  by (simp add: parsePin_def Let_def split: option.splits)

lemma fold_parsePin_table_only:
  "snd (fold (parsePin r) ps (a, t)) = snd (fold (parsePin r) ps (b, t))"
proof (induction ps arbitrary: a b t)
  case Nil
  then show ?case by simp
next
  case (Cons p ps)
  obtain a' t' where 1: "parsePin r p (a, t) = (a', t')" by (cases "parsePin r p (a, t)")
  obtain b' t'' where 2: "parsePin r p (b, t) = (b', t'')" by (cases "parsePin r p (b, t)")
  from 1 2 parsePin_table_only [of r p a t b] have "t'' = t'" by simp
  with 1 2 Cons.IH [of a' t' b'] show ?case by simp
qed

lemma fold_parsePin_filter:
  "snd (fold (parsePin r) ps st) = snd (fold (parsePin r) (filter (\<lambda>e. \<not> netless e) ps) st)"
proof (induction ps arbitrary: st)
  case Nil
  then show ?case by simp
next
  case (Cons p ps)
  show ?case
  proof (cases "netless p")
    case False
    with Cons.IH show ?thesis by simp
  next
    case True
    obtain a t where st: "st = (a, t)" by (cases st)
    obtain a' t' where 1: "parsePin r p (a, t) = (a', t')" by (cases "parsePin r p (a, t)")
    from netless_parsePin [OF True, of r "(a, t)"] 1 have "t' = t" by simp
    with 1 st fold_parsePin_table_only [of r ps a' t a] Cons.IH [of "(a, t)"] True
    show ?thesis by simp
  qed
qed

lemma parseJlcJsonRoot_nets:
  "map_of rootObj ''components'' = Some (JObj cs) \<Longrightarrow>
   \<exists>r. parseJlcJsonRoot (JObj rootObj) = Some r
      \<and> pj_nets r = netsOf (snd (fold parseComponent cs ([], [])))"
  by (simp add: parseJlcJsonRoot_def Let_def)

lemma two_components_table:
  assumes "map_of comp1 ''pinInfoMap'' = Some (JObj [(pid1, JObj pin1)])"
    and "map_of comp2 ''pinInfoMap'' = Some (JObj [(pid2, JObj pin2)])"
    and n1: "map_of pin1 ''net'' = Some (JStr ''VCC'')"
    and n2: "map_of pin2 ''net'' = Some (JStr ''VCC'')"
    and e1: "e1 = \<lparr>ref = normalizeRef (designatorOf id1 (propsOf comp1)),
               pin = normalizePin (pinNumber pid1 pin1)\<rparr>"
    and e2: "e2 = \<lparr>ref = normalizeRef (designatorOf id2 (propsOf comp2)),
               pin = normalizePin (pinNumber pid2 pin2)\<rparr>"
  shows "snd (fold parseComponent [(id1, JObj comp1), (id2, JObj comp2)] ([], []))
      = addEndpoint ''VCC'' e2 [(''VCC'', (''VCC'', [(endpointKey e1, e1)]))]"
proof -
  from assms(1,2) have pm: "pinInfoMapOf comp1 = [(pid1, JObj pin1)]"
    "pinInfoMapOf comp2 = [(pid2, JObj pin2)]"
    by (simp_all add: pinInfoMapOf_def)
  have "\<And>st. snd (parseComponent (id1, JObj comp1) st) = addEndpoint ''VCC'' e1 (snd st)"
    unfolding e1 by (simp add: parseComponent_table pm parsePin_on_vcc [OF n1])
  then have t1: "snd (parseComponent (id1, JObj comp1) ([], []))
      = [(''VCC'', (''VCC'', [(endpointKey e1, e1)]))]"
    by (simp only: addEndpoint_first snd_conv)
  have t2: "\<And>st. snd (parseComponent (id2, JObj comp2) st) = addEndpoint ''VCC'' e2 (snd st)"
    unfolding e2 by (simp add: parseComponent_table pm parsePin_on_vcc [OF n2])
  obtain cs where c1: "parseComponent (id1, JObj comp1) ([], [])
      = (cs, [(''VCC'', (''VCC'', [(endpointKey e1, e1)]))])"
    using t1 by (cases "parseComponent (id1, JObj comp1) ([], [])") simp
  show ?thesis by (simp add: c1 t2)
qed

lemma two_components_nets:
  assumes "startsWith ''{'' (trim text)" and "jsonParse (trim text) = Some (JObj rootObj)"
    and "map_of rootObj ''components'' = Some (JObj [(id1, JObj comp1), (id2, JObj comp2)])"
    and "map_of comp1 ''pinInfoMap'' = Some (JObj [(pid1, JObj pin1)])"
    and "map_of comp2 ''pinInfoMap'' = Some (JObj [(pid2, JObj pin2)])"
    and "map_of pin1 ''net'' = Some (JStr ''VCC'')"
    and "map_of pin2 ''net'' = Some (JStr ''VCC'')"
    and "e1 = \<lparr>ref = normalizeRef (designatorOf id1 (propsOf comp1)),
               pin = normalizePin (pinNumber pid1 pin1)\<rparr>"
    and "e2 = \<lparr>ref = normalizeRef (designatorOf id2 (propsOf comp2)),
               pin = normalizePin (pinNumber pid2 pin2)\<rparr>"
  shows "\<exists>r. parseJlcJsonNetlist jsonParse text = Some r
      \<and> pj_nets r = netsOf (addEndpoint ''VCC'' e2 [(''VCC'', (''VCC'', [(endpointKey e1, e1)]))])"
proof -
  from assms(1,2) have p: "parseJlcJsonNetlist jsonParse text = parseJlcJsonRoot (JObj rootObj)"
    by (simp add: parseJlcJsonNetlist_def Let_def)
  from parseJlcJsonRoot_nets [OF assms(3)] obtain r
    where r: "parseJlcJsonRoot (JObj rootObj) = Some r"
      "pj_nets r = netsOf (snd (fold parseComponent [(id1, JObj comp1), (id2, JObj comp2)] ([], [])))"
    by blast
  from r(2) have "pj_nets r
      = netsOf (addEndpoint ''VCC'' e2 [(''VCC'', (''VCC'', [(endpointKey e1, e1)]))])"
    unfolding two_components_table [OF assms(4-9)] .
  with r(1) p show ?thesis by simp
qed

text \<open>
  Claim C9, as the code has it. Let the text parse to an object whose \<^verbatim>\<open>components\<close>
  are two objects, each with a \<^verbatim>\<open>pinInfoMap\<close> of one pin whose \<^verbatim>\<open>net\<close> is \<^verbatim>\<open>VCC\<close>.
  When the two endpoints differ in their key \<^verbatim>\<open>ref.pin\<close>, under which endpoints are
  de-duplicated, the result has exactly one net, named \<^verbatim>\<open>VCC\<close>, holding the two
  endpoints; when they are the same endpoint, it has exactly one net, named \<^verbatim>\<open>VCC\<close>,
  holding that one endpoint. And for every input: a pin whose \<^verbatim>\<open>net\<close> is absent or
  the empty string is \<open>netless\<close>; a round of the pin loop on a netless pin leaves every
  net as it was; and the loop over the pins of a component leaves the nets as the loop
  over its pins that are not netless does.
\<close>

theorem two_pins_on_vcc:
  "(startsWith ''{'' (trim text) \<and> jsonParse (trim text) = Some (JObj rootObj)
      \<and> map_of rootObj ''components'' = Some (JObj [(id1, JObj comp1), (id2, JObj comp2)])
      \<and> map_of comp1 ''pinInfoMap'' = Some (JObj [(pid1, JObj pin1)])
      \<and> map_of comp2 ''pinInfoMap'' = Some (JObj [(pid2, JObj pin2)])
      \<and> map_of pin1 ''net'' = Some (JStr ''VCC'') \<and> map_of pin2 ''net'' = Some (JStr ''VCC'')
      \<and> e1 = \<lparr>ref = normalizeRef (designatorOf id1 (propsOf comp1)),
               pin = normalizePin (pinNumber pid1 pin1)\<rparr>
      \<and> e2 = \<lparr>ref = normalizeRef (designatorOf id2 (propsOf comp2)),
               pin = normalizePin (pinNumber pid2 pin2)\<rparr>
      \<longrightarrow> (endpointKey e1 \<noteq> endpointKey e2 \<longrightarrow>
             (\<exists>r. parseJlcJsonNetlist jsonParse text = Some r
                  \<and> pj_nets r = [(''VCC'', [e1, e2])]))
          \<and> (e1 = e2 \<longrightarrow>
             (\<exists>r. parseJlcJsonNetlist jsonParse text = Some r \<and> pj_nets r = [(''VCC'', [e1])])))
   \<and> (map_of pinObj ''net'' = None \<or> map_of pinObj ''net'' = Some (JStr [])
        \<longrightarrow> netless (pinId, JObj pinObj))
   \<and> (netless entry \<longrightarrow> snd (parsePin r0 entry st) = snd st)
   \<and> snd (fold (parsePin r0) pins st)
       = snd (fold (parsePin r0) (filter (\<lambda>e. \<not> netless e) pins) st)"
proof (intro conjI impI)
  assume a: "startsWith ''{'' (trim text) \<and> jsonParse (trim text) = Some (JObj rootObj)
      \<and> map_of rootObj ''components'' = Some (JObj [(id1, JObj comp1), (id2, JObj comp2)])
      \<and> map_of comp1 ''pinInfoMap'' = Some (JObj [(pid1, JObj pin1)])
      \<and> map_of comp2 ''pinInfoMap'' = Some (JObj [(pid2, JObj pin2)])
      \<and> map_of pin1 ''net'' = Some (JStr ''VCC'') \<and> map_of pin2 ''net'' = Some (JStr ''VCC'')
      \<and> e1 = \<lparr>ref = normalizeRef (designatorOf id1 (propsOf comp1)),
               pin = normalizePin (pinNumber pid1 pin1)\<rparr>
      \<and> e2 = \<lparr>ref = normalizeRef (designatorOf id2 (propsOf comp2)),
               pin = normalizePin (pinNumber pid2 pin2)\<rparr>"
  then have h: "startsWith ''{'' (trim text)" "jsonParse (trim text) = Some (JObj rootObj)"
    "map_of rootObj ''components'' = Some (JObj [(id1, JObj comp1), (id2, JObj comp2)])"
    "map_of comp1 ''pinInfoMap'' = Some (JObj [(pid1, JObj pin1)])"
    "map_of comp2 ''pinInfoMap'' = Some (JObj [(pid2, JObj pin2)])"
    "map_of pin1 ''net'' = Some (JStr ''VCC'')" "map_of pin2 ''net'' = Some (JStr ''VCC'')"
    "e1 = \<lparr>ref = normalizeRef (designatorOf id1 (propsOf comp1)),
               pin = normalizePin (pinNumber pid1 pin1)\<rparr>"
    "e2 = \<lparr>ref = normalizeRef (designatorOf id2 (propsOf comp2)),
               pin = normalizePin (pinNumber pid2 pin2)\<rparr>"
    by blast+
  from h have "\<exists>r. parseJlcJsonNetlist jsonParse text = Some r
      \<and> pj_nets r = netsOf (addEndpoint ''VCC'' e2 [(''VCC'', (''VCC'', [(endpointKey e1, e1)]))])"
    by (rule two_components_nets)
  then obtain r
    where r: "parseJlcJsonNetlist jsonParse text = Some r"
      "pj_nets r = netsOf (addEndpoint ''VCC'' e2 [(''VCC'', (''VCC'', [(endpointKey e1, e1)]))])"
    by blast
  {
    assume ne: "endpointKey e1 \<noteq> endpointKey e2"
    have "netsOf (addEndpoint ''VCC'' e2 [(''VCC'', (''VCC'', [(endpointKey e1, e1)]))])
        = [(''VCC'', [e1, e2])]"
      by (simp add: addEndpoint_second [OF ne] netsOf_def normalizeNetName_VCC)
    with r show "\<exists>r. parseJlcJsonNetlist jsonParse text = Some r
        \<and> pj_nets r = [(''VCC'', [e1, e2])]"
      by simp
  }
  {
    assume eq: "e1 = e2"
    have "netsOf (addEndpoint ''VCC'' e2 [(''VCC'', (''VCC'', [(endpointKey e1, e1)]))])
        = [(''VCC'', [e1])]"
      unfolding eq by (simp add: addEndpoint_again netsOf_def normalizeNetName_VCC)
    with r show "\<exists>r. parseJlcJsonNetlist jsonParse text = Some r \<and> pj_nets r = [(''VCC'', [e1])]"
      by simp
  }
next
  assume "map_of pinObj ''net'' = None \<or> map_of pinObj ''net'' = Some (JStr [])"
  then show "netless (pinId, JObj pinObj)"
    by (auto simp: netless_def pinNet_def trim_def)
next
  assume "netless entry"
  then show "snd (parsePin r0 entry st) = snd st" by (rule netless_parsePin)
next
  show "snd (fold (parsePin r0) pins st)
       = snd (fold (parsePin r0) (filter (\<lambda>e. \<not> netless e) pins) st)"
    by (rule fold_parsePin_filter)
qed

theorem two_pins_on_vcc_witness:
  "(\<exists>r. parseJlcJsonNetlist (\<lambda>t. Some pair_root) ''{}'' = Some r
        \<and> pj_nets r = [(''VCC'', [\<lparr>ref = ''R1'', pin = ''1''\<rparr>, \<lparr>ref = ''U1'', pin = ''8''\<rparr>])])
   \<and> (\<exists>r. parseJlcJsonNetlist (\<lambda>t. Some twin_root) ''{}'' = Some r
        \<and> pj_nets r = [(''VCC'', [\<lparr>ref = ''R1'', pin = ''1''\<rparr>])])
   \<and> netless (''p2'', JObj [(''number'', JStr ''4''), (''net'', JStr [])])
   \<and> netless (''p3'', JObj [(''number'', JStr ''5'')])
   \<and> snd (parsePin ''U1'' (''p3'', JObj [(''number'', JStr ''5'')]) ([], [])) = []"
proof -
  let ?pin1 = "[(''number'', JStr ''1''), (''net'', JStr ''VCC'')]"
  let ?pin2 = "[(''number'', JStr ''8''), (''net'', JStr ''VCC'')]"
  let ?comp1 = "[(''props'', JObj [(''Designator'', JStr ''R1'')]),
                 (''pinInfoMap'', JObj [(''p1'', JObj ?pin1)])]"
  let ?comp2 = "[(''props'', JObj [(''Designator'', JStr ''U1'')]),
                 (''pinInfoMap'', JObj [(''p1'', JObj ?pin2)])]"
  let ?root = "[(''components'', JObj [(''c1'', JObj ?comp1), (''c2'', JObj ?comp2)])]"
  let ?twin = "[(''components'', JObj [(''c1'', JObj ?comp1), (''c2'', JObj ?comp1)])]"
  let ?e1 = "\<lparr>ref = ''R1'', pin = ''1''\<rparr>"
  let ?e2 = "\<lparr>ref = ''U1'', pin = ''8''\<rparr>"
  let ?p2 = "[(''number'', JStr ''4''), (''net'', JStr [])]"
  let ?p3 = "[(''number'', JStr ''5'')]"
  have h1: "startsWith ''{'' (trim ''{}'')" by (simp add: trim_def isWhite_def)
  have h2: "(\<lambda>t. Some pair_root) (trim ''{}'') = Some (JObj ?root)" by (simp add: pair_root_def)
  have h2': "(\<lambda>t. Some twin_root) (trim ''{}'') = Some (JObj ?twin)" by (simp add: twin_root_def)
  have h3: "?e1 = \<lparr>ref = normalizeRef (designatorOf ''c1'' (propsOf ?comp1)),
                    pin = normalizePin (pinNumber ''p1'' ?pin1)\<rparr>" by code_simp
  have h3': "?e1 = \<lparr>ref = normalizeRef (designatorOf ''c2'' (propsOf ?comp1)),
                    pin = normalizePin (pinNumber ''p1'' ?pin1)\<rparr>" by code_simp
  have h4: "?e2 = \<lparr>ref = normalizeRef (designatorOf ''c2'' (propsOf ?comp2)),
                    pin = normalizePin (pinNumber ''p1'' ?pin2)\<rparr>" by code_simp
  have h5: "endpointKey ?e1 \<noteq> endpointKey ?e2" by (simp add: endpointKey_def)
  have m: "map_of ?root ''components'' = Some (JObj [(''c1'', JObj ?comp1), (''c2'', JObj ?comp2)])"
    "map_of ?twin ''components'' = Some (JObj [(''c1'', JObj ?comp1), (''c2'', JObj ?comp1)])"
    "map_of ?comp1 ''pinInfoMap'' = Some (JObj [(''p1'', JObj ?pin1)])"
    "map_of ?comp2 ''pinInfoMap'' = Some (JObj [(''p1'', JObj ?pin2)])"
    "map_of ?pin1 ''net'' = Some (JStr ''VCC'')" "map_of ?pin2 ''net'' = Some (JStr ''VCC'')"
    by simp_all
  have a: "\<exists>r. parseJlcJsonNetlist (\<lambda>t. Some pair_root) ''{}'' = Some r
        \<and> pj_nets r = [(''VCC'', [?e1, ?e2])]"
    using two_pins_on_vcc [where ?text = "''{}''" and jsonParse = "\<lambda>t. Some pair_root"
        and rootObj = ?root and ?id1.0 = "''c1''" and ?id2.0 = "''c2''" and ?comp1.0 = ?comp1
        and ?comp2.0 = ?comp2 and ?pid1.0 = "''p1''" and ?pid2.0 = "''p1''" and ?pin1.0 = ?pin1
        and ?pin2.0 = ?pin2 and ?e1.0 = ?e1 and ?e2.0 = ?e2]
      h1 h2 h3 h4 h5 m by blast
  have a': "\<exists>r. parseJlcJsonNetlist (\<lambda>t. Some twin_root) ''{}'' = Some r
        \<and> pj_nets r = [(''VCC'', [?e1])]"
    using two_pins_on_vcc [where ?text = "''{}''" and jsonParse = "\<lambda>t. Some twin_root"
        and rootObj = ?twin and ?id1.0 = "''c1''" and ?id2.0 = "''c2''" and ?comp1.0 = ?comp1
        and ?comp2.0 = ?comp1 and ?pid1.0 = "''p1''" and ?pid2.0 = "''p1''" and ?pin1.0 = ?pin1
        and ?pin2.0 = ?pin1 and ?e1.0 = ?e1 and ?e2.0 = ?e1]
      h1 h2' h3 h3' m by blast
  have b: "netless (''p2'', JObj ?p2)"
    using two_pins_on_vcc [where pinObj = ?p2 and pinId = "''p2''"] by simp
  have c: "netless (''p3'', JObj ?p3)"
    using two_pins_on_vcc [where pinObj = ?p3 and pinId = "''p3''"] by simp
  have d: "snd (parsePin ''U1'' (''p3'', JObj ?p3) ([], [])) = []"
    using two_pins_on_vcc [where entry = "(''p3'', JObj ?p3)" and ?r0.0 = "''U1''" and st = "([], [])"] c
    by simp
  from a a' b c d show ?thesis by blast
qed

theorem same_pin_twice_is_one_endpoint:
  "map_option pj_nets (parseJlcJsonRoot twin_root)
     = Some [(''VCC'', [\<lparr>ref = ''R1'', pin = ''1''\<rparr>])]
   \<and> map_option (map jc_pins \<circ> pj_components) (parseJlcJsonRoot twin_root)
     = Some [[\<lparr>jp_pin = ''1'', jp_net = ''VCC'', jp_name = None\<rparr>],
             [\<lparr>jp_pin = ''1'', jp_net = ''VCC'', jp_name = None\<rparr>]]"
  by code_simp

end
